theory Spec2Isabelle
  imports Complex_Main "HOL-Library.Multiset"
begin

section \<open>Strings\<close>

text \<open>
  JavaScript strings are sequences of UTF-16 code units. They are modelled as
  \<^typ>\<open>string\<close>, a list of 8-bit characters, read as the code units below 256
  (ASCII and Latin-1). On that range \<^verbatim>\<open>String.prototype.trim\<close> and the
  regular expression class \<^verbatim>\<open>\s\<close> remove the code units 9 to 13, 32 and 160,
  and \<^verbatim>\<open>toLowerCase\<close> adds 32 to the letters A to Z and to 192 to 222
  except 215 (the multiplication sign), which is setting bit 5.
\<close>

definition isWhiteSpace :: "char \<Rightarrow> bool" where
  "isWhiteSpace c = (of_char c \<in> {9, 10, 11, 12, 13, 32, 160 :: nat})"

definition isUpperCase :: "char \<Rightarrow> bool" where
  "isUpperCase c = (let n = (of_char c :: nat) in
     (65 \<le> n \<and> n \<le> 90) \<or> (192 \<le> n \<and> n \<le> 222 \<and> n \<noteq> 215))"

definition lowerChar :: "char \<Rightarrow> char" where
  "lowerChar c = (if isUpperCase c
     then (case c of Char b0 b1 b2 b3 b4 b5 b6 b7 \<Rightarrow> Char b0 b1 b2 b3 b4 True b6 b7)
     else c)"

definition toLowerCase :: "string \<Rightarrow> string" where
  "toLowerCase s = map lowerChar s"

definition trim :: "string \<Rightarrow> string" where
  "trim s = rev (dropWhile isWhiteSpace (rev (dropWhile isWhiteSpace s)))"

section \<open>The similarity primitive\<close>

text \<open>
  Modelled from the spec: \<^verbatim>\<open>compareTwoStrings\<close>, which
  \<^verbatim>\<open>utils/speechRecognition\<close> imports from the npm package
  \<^verbatim>\<open>string-similarity\<close>; the package is a dependency and its code is not among
  the repository's sources. The spec describes it as a bidirectional
  bigram-overlap coefficient with range [0,1]. The definition is the package's
  published algorithm: all whitespace is removed from both strings; identical
  strings score 1; otherwise a string of fewer than two characters scores 0;
  otherwise the bigrams of the first string are counted in a table
  (\<open>countBigrams\<close>), each bigram of the second string that is still in the table
  is taken out of it and counted (\<open>intersect\<close>), and the score is twice that
  count divided by the total number of bigrams. The quotient is a JavaScript
  double; it is modelled as the exact rational. Both the comparison with the
  literal 0.7 and the comparison of two scores agree with the exact ones for
  strings of fewer than \<open>2\<^sup>2\<^sup>5\<close> characters, because division is correctly
  rounded and two different quotients of such lengths are further apart than the
  rounding error.
\<close>

fun bigrams :: "string \<Rightarrow> string list" where
  "bigrams (a # b # cs) = [a, b] # bigrams (b # cs)"
| "bigrams cs = []"

fun countBigrams :: "string list \<Rightarrow> (string \<Rightarrow> nat) \<Rightarrow> (string \<Rightarrow> nat)" where
  "countBigrams [] firstBigrams = firstBigrams"
| "countBigrams (bigram # rest) firstBigrams =
     countBigrams rest (firstBigrams(bigram := firstBigrams bigram + 1))"

fun intersect :: "string list \<Rightarrow> (string \<Rightarrow> nat) \<Rightarrow> nat \<Rightarrow> nat" where
  "intersect [] firstBigrams intersectionSize = intersectionSize"
| "intersect (bigram # rest) firstBigrams intersectionSize =
     (let count = firstBigrams bigram
      in if count > 0
         then intersect rest (firstBigrams(bigram := count - 1)) (intersectionSize + 1)
         else intersect rest firstBigrams intersectionSize)"

definition compareTwoStrings :: "string \<Rightarrow> string \<Rightarrow> rat" where
  "compareTwoStrings first second =
     (let first = filter (\<lambda>c. \<not> isWhiteSpace c) first;
          second = filter (\<lambda>c. \<not> isWhiteSpace c) second
      in if first = second then 1
         else if length first < 2 \<or> length second < 2 then 0
         else 2 * of_nat (intersect (bigrams second) (countBigrams (bigrams first) (\<lambda>b. 0)) 0)
              / of_nat (length first + length second - 2))"

section \<open>The answer normaliser\<close>

text \<open>
  \<^verbatim>\<open>findBestMatch\<close> of \<^verbatim>\<open>utils/speechRecognition\<close>. The object
  \<^verbatim>\<open>bestMatch = { text, score }\<close> is a pair, the loop over the options is
  \<open>bestOf\<close>, and the result \<^verbatim>\<open>{ match, score } | null\<close> is an optional pair.
\<close>

fun bestOf :: "string \<Rightarrow> string list \<Rightarrow> string \<times> rat \<Rightarrow> string \<times> rat" where
  "bestOf normalizedSpoken [] bestMatch = bestMatch"
| "bestOf normalizedSpoken (option # rest) bestMatch =
     (let normalizedOption = trim (toLowerCase option);
          similarity = compareTwoStrings normalizedSpoken normalizedOption
      in bestOf normalizedSpoken rest
           (if similarity > snd bestMatch then (option, similarity) else bestMatch))"

definition findBestMatch :: "string \<Rightarrow> string list \<Rightarrow> (string \<times> rat) option" where
  "findBestMatch spokenText options =
     (let normalizedSpoken = trim (toLowerCase spokenText);
          bestMatch = bestOf normalizedSpoken options ('''', 0)
      in if snd bestMatch \<ge> 7 / 10 then Some (fst bestMatch, snd bestMatch) else None)"

section \<open>The quiz page\<close>

subsection \<open>Data\<close>

text \<open>
  The interfaces \<^verbatim>\<open>Question\<close> and \<^verbatim>\<open>Level\<close> of \<^verbatim>\<open>QuizPage.tsx\<close>.
  The field \<^verbatim>\<open>id\<close> is named \<open>question_id\<close> and \<open>level_id\<close>, and the level's
  \<^verbatim>\<open>image_url\<close> is \<open>level_image_url\<close>, because record fields are constants.
\<close>

record Question =
  question_id :: string
  question_text :: string
  image_url :: string
  options :: "string list"
  correct_answer :: string

record Level =
  level_id :: string
  level_number :: int
  title :: string
  level_image_url :: string

text \<open>The values of the column \<^verbatim>\<open>progress.status\<close>.\<close>

datatype status = locked | unlocked | completed

text \<open>
  The messages the page shows with \<^verbatim>\<open>toast\<close>, in the order of the source:
  \<^verbatim>\<open>'Correct!'\<close>, \<^verbatim>\<open>'Incorrect!'\<close>, \<^verbatim>\<open>'You made 3 mistakes. Quiz ended.'\<close>,
  \<^verbatim>\<open>'Try again!'\<close>, \<^verbatim>\<open>`Level completed! Score: ${finalScore}/${questions.length}`\<close>,
  the message of a caught error,
  \<^verbatim>\<open>'Speech recognition is not supported in your browser. Please use Chrome or Edge.'\<close>
  and \<^verbatim>\<open>'Speech recognition not available'\<close>.
\<close>

datatype toast =
    Correct
  | Incorrect
  | ThreeMistakes
  | TryAgain
  | LevelCompleted nat nat
  | ErrorMessage string
  | SpeechNotSupported
  | SpeechNotAvailable

text \<open>
  What the page asks of its collaborators. \<open>ProgressUpdate u n st hs\<close> is
  \<^verbatim>\<open>supabase.from('progress').update({ status: st, high_score: hs }).eq('user_id', u).eq('level_number', n)\<close>,
  with \<open>hs = None\<close> when the update has no \<^verbatim>\<open>high_score\<close>.
\<close>

datatype effect =
    Toast toast
  | Navigate string
  | ProgressUpdate string int status "nat option"

text \<open>
  What a session runs in: \<open>levelNumber\<close> is the value of
  \<^verbatim>\<open>parseInt(levelNumber!)\<close> (an integer, since the level was found by it),
  \<open>user_id\<close> is \<^verbatim>\<open>user!.id\<close> (the page is behind the login), and
  \<open>progressError\<close> is the \<^verbatim>\<open>error\<close> field of the backend's reply to the update
  of the level's own progress row. The reply to the unlocking of the next level
  is not looked at by the source.
\<close>

record Env =
  levelNumber :: int
  user_id :: string
  progressError :: "string option"

text \<open>
  The state variables of the component, and \<open>effects\<close>, the calls made so far to
  \<^verbatim>\<open>toast\<close>, \<^verbatim>\<open>navigate\<close> and \<^verbatim>\<open>supabase\<close>, oldest first.
  \<^verbatim>\<open>score\<close> and \<^verbatim>\<open>mistakes\<close> are counters that start at 0 and only grow by 1.
\<close>

record QuizState =
  level :: "Level option"
  questions :: "Question list"
  currentQuestionIndex :: nat
  score :: nat
  mistakes :: nat
  isListening :: bool
  selectedOption :: "string option"
  isCorrect :: "bool option"
  feedbackText :: string
  loading :: bool
  effects :: "effect list"

datatype error = TypeError

text \<open>A reply \<^verbatim>\<open>{ data, error }\<close> of the backend.\<close>

datatype 'a response = Error string | Data 'a

text \<open>The callback given to \<^verbatim>\<open>setTimeout\<close> by \<^verbatim>\<open>checkAnswer\<close>.\<close>

datatype callback = CallNextQuestion | CallEndQuiz bool

subsection \<open>Operations\<close>

text \<open>
  A function of the component reads the state variables of the render that
  created it and writes through the setters. Every operation below therefore
  takes two states: \<open>r\<close>, the render whose closure runs, and \<open>s\<close>, the state
  the setters update. A callback passed to \<^verbatim>\<open>setTimeout\<close> keeps the \<open>r\<close> of
  the render that scheduled it.
\<close>

definition emit :: "effect \<Rightarrow> QuizState \<Rightarrow> QuizState" where
  "emit e s = s\<lparr>effects := effects s @ [e]\<rparr>"

definition initialState :: QuizState where
  "initialState = \<lparr>level = None, questions = [], currentQuestionIndex = 0, score = 0,
     mistakes = 0, isListening = False, selectedOption = None, isCorrect = None,
     feedbackText = [], loading = True, effects = []\<rparr>"

definition fetchQuizData :: "QuizState \<Rightarrow> Level response \<Rightarrow> Question list response \<Rightarrow> QuizState" where
  "fetchQuizData s levelReply questionsReply =
     (case levelReply of
        Error message \<Rightarrow>
          (emit (Navigate ''/levels'') (emit (Toast (ErrorMessage message)) s))\<lparr>loading := False\<rparr>
      | Data levelData \<Rightarrow>
          (let s1 = s\<lparr>level := Some levelData\<rparr>
           in case questionsReply of
                Error message \<Rightarrow>
                  (emit (Navigate ''/levels'') (emit (Toast (ErrorMessage message)) s1))\<lparr>loading := False\<rparr>
              | Data questionsData \<Rightarrow> s1\<lparr>questions := questionsData, loading := False\<rparr>))"

text \<open>
  The spec's \<open>start(level)\<close>: the component is mounted and both queries of
  \<^verbatim>\<open>fetchQuizData\<close> succeed.
\<close>

definition start :: "Level \<Rightarrow> Question list \<Rightarrow> QuizState" where
  "start lvl qs = fetchQuizData initialState (Data lvl) (Data qs)"

text \<open>\<^verbatim>\<open>questions[currentQuestionIndex]\<close>, which is \<^verbatim>\<open>undefined\<close> out of range.\<close>

definition currentQuestion :: "QuizState \<Rightarrow> Question option" where
  "currentQuestion r =
     (if currentQuestionIndex r < length (questions r)
      then Some (questions r ! currentQuestionIndex r) else None)"

definition endQuiz :: "Env \<Rightarrow> QuizState \<Rightarrow> QuizState \<Rightarrow> bool \<Rightarrow> QuizState" where
  "endQuiz env r s failedDueToMistakes =
     (let finalScore = (if failedDueToMistakes then 0 else score r);
          s1 = emit (ProgressUpdate (user_id env) (levelNumber env)
                       (if failedDueToMistakes then unlocked else completed) (Some finalScore)) s
      in case progressError env of
           Some message \<Rightarrow> emit (Toast (ErrorMessage message)) s1
         | None \<Rightarrow>
             (let nextLevel = levelNumber env + 1;
                  s2 = (if \<not> failedDueToMistakes
                        then emit (ProgressUpdate (user_id env) nextLevel unlocked None) s1
                        else s1);
                  s3 = emit (Toast (if failedDueToMistakes then TryAgain
                                    else LevelCompleted finalScore (length (questions r)))) s2
              in emit (Navigate ''/levels'') s3))"

definition nextQuestion :: "Env \<Rightarrow> QuizState \<Rightarrow> QuizState \<Rightarrow> QuizState" where
  "nextQuestion env r s =
     (if currentQuestionIndex r + 1 < length (questions r)
      then s\<lparr>currentQuestionIndex := currentQuestionIndex r + 1, selectedOption := None,
             isCorrect := None, feedbackText := []\<rparr>
      else endQuiz env r s False)"

text \<open>
  \<^verbatim>\<open>checkAnswer\<close> returns the updated state and the callback it schedules
  (after 2000 ms, or 2500 ms after a mistake below the limit). Reading
  \<^verbatim>\<open>correct_answer\<close> of an undefined question throws.
\<close>

definition checkAnswer :: "QuizState \<Rightarrow> QuizState \<Rightarrow> string \<Rightarrow> error + QuizState \<times> callback" where
  "checkAnswer r s selectedAnswer =
     (case currentQuestion r of
        None \<Rightarrow> Inl TypeError
      | Some q \<Rightarrow>
          (let correct = (selectedAnswer = correct_answer q);
               s1 = s\<lparr>isCorrect := Some correct\<rparr>
           in if correct
              then Inr (emit (Toast Correct) (s1\<lparr>score := score r + 1\<rparr>), CallNextQuestion)
              else (let newMistakes = mistakes r + 1;
                        s2 = emit (Toast Incorrect) (s1\<lparr>mistakes := newMistakes\<rparr>)
                    in if newMistakes \<ge> 3
                       then Inr (emit (Toast ThreeMistakes) s2, CallEndQuiz True)
                       else Inr (s2, CallNextQuestion))))"

text \<open>
  The \<^verbatim>\<open>onClick\<close> handler of an option button. The buttons are rendered only
  when there is a current question; the handler is modelled for every state, and
  the exception of \<^verbatim>\<open>checkAnswer\<close> is its result.
\<close>

definition optionClick :: "QuizState \<Rightarrow> QuizState \<Rightarrow> string \<Rightarrow> error + QuizState \<times> callback option" where
  "optionClick r s option =
     (if selectedOption r = None
      then (case checkAnswer r (s\<lparr>selectedOption := Some option\<rparr>) option of
              Inl e \<Rightarrow> Inl e
            | Inr (s', cb) \<Rightarrow> Inr (s', Some cb))
      else Inr (s, None))"

text \<open>
  \<^verbatim>\<open>handleSpeechResult\<close>: the normaliser picks the option, if any. It has no
  check of \<^verbatim>\<open>selectedOption\<close>; the microphone button is disabled instead.
\<close>

definition handleSpeechResult :: "QuizState \<Rightarrow> QuizState \<Rightarrow> string \<Rightarrow> error + QuizState \<times> callback option" where
  "handleSpeechResult r s spokenText =
     (case currentQuestion r of
        None \<Rightarrow> Inl TypeError
      | Some q \<Rightarrow>
          (case findBestMatch spokenText (options q) of
             None \<Rightarrow> Inr (s\<lparr>feedbackText := ''Unrecognized answer. Please try again or click an option.''\<rparr>, None)
           | Some matchResult \<Rightarrow>
               (case checkAnswer r (s\<lparr>selectedOption := Some (fst matchResult)\<rparr>) (fst matchResult) of
                  Inl e \<Rightarrow> Inl e
                | Inr (s', cb) \<Rightarrow> Inr (s', Some cb))))"

definition fire :: "Env \<Rightarrow> QuizState \<Rightarrow> QuizState \<Rightarrow> callback \<Rightarrow> QuizState" where
  "fire env r s cb =
     (case cb of CallNextQuestion \<Rightarrow> nextQuestion env r s
               | CallEndQuiz failedDueToMistakes \<Rightarrow> endQuiz env r s failedDueToMistakes)"

text \<open>
  The spec's \<open>submitAnswer\<close>: the user clicks an option of the page rendered
  from \<open>s\<close>, and the callback scheduled by \<^verbatim>\<open>checkAnswer\<close> runs next. The
  callback belongs to the render of the click, \<open>s\<close>. The option buttons and the
  microphone button are disabled from the click on, but a recogniser that was
  started before the click can still deliver its result before the callback
  runs: that is a session of the whole page, below.
\<close>

definition submitAnswer :: "Env \<Rightarrow> QuizState \<Rightarrow> string \<Rightarrow> error + QuizState" where
  "submitAnswer env s candidateOption =
     (case optionClick s s candidateOption of
        Inl e \<Rightarrow> Inl e
      | Inr (s', None) \<Rightarrow> Inr s'
      | Inr (s', Some cb) \<Rightarrow> Inr (fire env s s' cb))"

text \<open>
  A run of submissions: the session in which every answer is a click on an
  option and the microphone is not used.
\<close>

fun run :: "Env \<Rightarrow> QuizState \<Rightarrow> string list \<Rightarrow> error + QuizState" where
  "run env s [] = Inr s"
| "run env s (a # as) =
     (case submitAnswer env s a of Inl e \<Rightarrow> Inl e | Inr s' \<Rightarrow> run env s' as)"

subsection \<open>The whole page\<close>

text \<open>
  What can happen to the page, one event at a time: a click on an option, a
  click on the microphone button, the result, the error or the end of the
  recogniser, and the firing of a callback that \<^verbatim>\<open>setTimeout\<close> holds.
\<close>

datatype event =
    Click string
  | StartListening
  | SpeechResult string
  | SpeechError
  | SpeechEnd
  | Timeout nat

text \<open>
  The page: the state of the component, the callbacks given to \<^verbatim>\<open>setTimeout\<close>
  that have not run yet, each with the render it belongs to, the render whose
  \<^verbatim>\<open>onresult\<close>, \<^verbatim>\<open>onerror\<close> and \<^verbatim>\<open>onend\<close> the recogniser holds while
  it runs, and whether \<^verbatim>\<open>createSpeechRecognition\<close> returned a recogniser. The
  page stays mounted: \<^verbatim>\<open>navigate\<close> is recorded among the effects, and the
  source does not clear its timers when the page is left.
\<close>

record Page =
  ui :: QuizState
  timers :: "(QuizState \<times> callback) list"
  recogniser :: "QuizState option"
  recognition :: bool

text \<open>
  The effect run on mount: the message for a browser without speech
  recognition, then \<^verbatim>\<open>fetchQuizData\<close>. With a recogniser and both queries
  answered, the state is \<open>start\<close>.
\<close>

definition mount :: "bool \<Rightarrow> Level response \<Rightarrow> Question list response \<Rightarrow> Page" where
  "mount supported levelReply questionsReply =
     \<lparr>ui = fetchQuizData
             (if supported then initialState else emit (Toast SpeechNotSupported) initialState)
             levelReply questionsReply,
      timers = [], recogniser = None, recognition = supported\<rparr>"

definition setTimeout :: "QuizState \<Rightarrow> callback option \<Rightarrow> Page \<Rightarrow> Page" where
  "setTimeout r cb p = (case cb of None \<Rightarrow> p | Some c \<Rightarrow> p\<lparr>timers := timers p @ [(r, c)]\<rparr>)"

text \<open>
  A click on an option button. The buttons exist when there is a current
  question and carry its options; the click is modelled for every string. The
  buttons are disabled when an option is selected, not while the recogniser
  listens. With a current question \<^verbatim>\<open>checkAnswer\<close> does not throw.
\<close>

definition clickOption :: "Page \<Rightarrow> string \<Rightarrow> Page" where
  "clickOption p option =
     (case currentQuestion (ui p) of
        None \<Rightarrow> p
      | Some q \<Rightarrow>
          (case optionClick (ui p) (ui p) option of
             Inl e \<Rightarrow> p
           | Inr (s', cb) \<Rightarrow> setTimeout (ui p) cb (p\<lparr>ui := s'\<rparr>)))"

text \<open>
  \<^verbatim>\<open>startListening\<close>, the click on the microphone button, which is disabled
  while listening or when an option is selected. The handlers it gives to the
  recogniser are closures of the render of the click.
\<close>

definition startListening :: "Page \<Rightarrow> Page" where
  "startListening p =
     (if currentQuestion (ui p) = None \<or> isListening (ui p) \<or> selectedOption (ui p) \<noteq> None then p
      else if \<not> recognition p then p\<lparr>ui := emit (Toast SpeechNotAvailable) (ui p)\<rparr>
      else p\<lparr>ui := (ui p)\<lparr>isListening := True, feedbackText := ''Listening...''\<rparr>,
             recogniser := Some (ui p)\<rparr>)"

text \<open>
  The handlers of the recogniser. The recogniser delivers one result or one
  error and ends at once, or ends without either.
\<close>

definition onend :: "Page \<Rightarrow> Page" where
  "onend p = p\<lparr>ui := (ui p)\<lparr>isListening := False\<rparr>, recogniser := None\<rparr>"

definition onresult :: "Page \<Rightarrow> string \<Rightarrow> Page" where
  "onresult p spokenText =
     (case recogniser p of
        None \<Rightarrow> p
      | Some r \<Rightarrow>
          (let s1 = (ui p)\<lparr>feedbackText := ''You said: '' @ [CHR 0x22] @ spokenText @ [CHR 0x22]\<rparr>
           in case handleSpeechResult r s1 spokenText of
                Inl e \<Rightarrow> onend (p\<lparr>ui := s1\<rparr>)
              | Inr (s', cb) \<Rightarrow> onend (setTimeout r cb (p\<lparr>ui := s'\<rparr>))))"

definition onerror :: "Page \<Rightarrow> Page" where
  "onerror p =
     (case recogniser p of
        None \<Rightarrow> p
      | Some r \<Rightarrow> onend (p\<lparr>ui := (ui p)\<lparr>isListening := False,
                     feedbackText := ''Could not recognize speech. Please try again.''\<rparr>\<rparr>))"

text \<open>
  The \<open>i\<close>-th pending callback runs. The browser runs them by deadline; the
  model lets any of them run.
\<close>

definition timeout :: "Env \<Rightarrow> Page \<Rightarrow> nat \<Rightarrow> Page" where
  "timeout env p i =
     (if i < length (timers p)
      then (case timers p ! i of
              (r, cb) \<Rightarrow> p\<lparr>ui := fire env r (ui p) cb,
                           timers := take i (timers p) @ drop (Suc i) (timers p)\<rparr>)
      else p)"

fun dispatch :: "Env \<Rightarrow> Page \<Rightarrow> event \<Rightarrow> Page" where
  "dispatch env p (Click option) = clickOption p option"
| "dispatch env p StartListening = startListening p"
| "dispatch env p (SpeechResult spokenText) = onresult p spokenText"
| "dispatch env p SpeechError = onerror p"
| "dispatch env p SpeechEnd = (case recogniser p of None \<Rightarrow> p | Some r \<Rightarrow> onend p)"
| "dispatch env p (Timeout i) = timeout env p i"

fun exec :: "Env \<Rightarrow> Page \<Rightarrow> event list \<Rightarrow> Page" where
  "exec env p [] = p"
| "exec env p (e # es) = exec env (dispatch env p e) es"

text \<open>
  The page after the events \<open>es\<close> of a session that \<open>start(level)\<close> began.
\<close>

definition session :: "Env \<Rightarrow> bool \<Rightarrow> Level \<Rightarrow> Question list \<Rightarrow> event list \<Rightarrow> Page" where
  "session env supported lvl qs es = exec env (mount supported (Data lvl) (Data qs)) es"

subsection \<open>Reading the session off the state\<close>

text \<open>
  The component has no flag for the end of the session: the session has ended
  when \<^verbatim>\<open>endQuiz\<close> has run, which shows as an update of the level's progress
  row with a \<^verbatim>\<open>high_score\<close>. Its status tells the two outcomes apart.
\<close>

datatype outcome = Completed | FailedByMistakes

fun writes :: "effect list \<Rightarrow> effect list" where
  "writes [] = []"
| "writes (ProgressUpdate u n st hs # es) = ProgressUpdate u n st hs # writes es"
| "writes (e # es) = writes es"

fun outcomeOf :: "effect list \<Rightarrow> (outcome \<times> nat) option" where
  "outcomeOf [] = None"
| "outcomeOf (ProgressUpdate u n st (Some hs) # es) =
     Some (if st = completed then Completed else FailedByMistakes, hs)"
| "outcomeOf (e # es) = outcomeOf es"

definition outcome :: "QuizState \<Rightarrow> (outcome \<times> nat) option" where
  "outcome s = outcomeOf (effects s)"

definition terminal :: "QuizState \<Rightarrow> bool" where
  "terminal s = (outcome s \<noteq> None)"

subsection \<open>What the session is expected to do\<close>

text \<open>
  The writes a finished session sends to the table \<^verbatim>\<open>progress\<close>, in the words
  of the spec: the level's own row gets the status and the score of the outcome,
  and the row of the next level is unlocked after a completed session. The
  source sends the second write only once the backend has accepted the first.
\<close>

definition intent :: "Env \<Rightarrow> outcome \<Rightarrow> nat \<Rightarrow> effect list" where
  "intent env k sc =
     ProgressUpdate (user_id env) (levelNumber env)
       (if k = Completed then completed else unlocked) (Some sc)
     # (if k = Completed \<and> progressError env = None
        then [ProgressUpdate (user_id env) (levelNumber env + 1) unlocked None] else [])"

text \<open>
  The invariant of a session on a level with questions: while no option is
  selected nothing has been written, there is a current question and fewer than
  three mistakes were made; once the session has ended the selected option stays
  and the writes are those of the outcome, which is failed with score 0 after
  three mistakes and completed on the last question with fewer.
\<close>

definition sessionInv :: "Env \<Rightarrow> QuizState \<Rightarrow> bool" where
  "sessionInv env s =
     (case selectedOption s of
        None \<Rightarrow> writes (effects s) = [] \<and> currentQuestionIndex s < length (questions s)
                 \<and> mistakes s < 3
      | Some a \<Rightarrow>
          (case outcome s of
             None \<Rightarrow> False
           | Some (k, sc) \<Rightarrow> writes (effects s) = intent env k sc
                              \<and> (k = FailedByMistakes \<longrightarrow> sc = 0 \<and> mistakes s = 3)
                              \<and> (k = Completed \<longrightarrow> mistakes s < 3
                                    \<and> currentQuestionIndex s + 1 = length (questions s))))"

text \<open>
  The numbers of right and of wrong answers among the submissions \<open>as\<close>, the
  \<open>i\<close>-th of which answers the \<open>i\<close>-th question.
\<close>

fun correctCount :: "Question list \<Rightarrow> string list \<Rightarrow> nat" where
  "correctCount (q # qs) (a # as) =
     (if a = correct_answer q then 1 else 0) + correctCount qs as"
| "correctCount qs as = 0"

fun wrongCount :: "Question list \<Rightarrow> string list \<Rightarrow> nat" where
  "wrongCount (q # qs) (a # as) =
     (if a = correct_answer q then 0 else 1) + wrongCount qs as"
| "wrongCount qs as = 0"

text \<open>
  The similarities \<^verbatim>\<open>findBestMatch\<close> computes, one for each option, in the
  order of the options.
\<close>

definition similarities :: "string \<Rightarrow> string list \<Rightarrow> rat list" where
  "similarities spokenText opts =
     map (\<lambda>option. compareTwoStrings (trim (toLowerCase spokenText)) (trim (toLowerCase option))) opts"

text \<open>An option that is empty or consists of whitespace only.\<close>

definition blank :: "string \<Rightarrow> bool" where
  "blank s = list_all isWhiteSpace s"

subsection \<open>Sessions without stale results\<close>

text \<open>
  The option click tests \<^verbatim>\<open>selectedOption\<close> before it calls
  \<^verbatim>\<open>checkAnswer\<close>; \<^verbatim>\<open>handleSpeechResult\<close> does not, and it runs in the
  render in which listening began. The handlers are stale when that render
  differs from the page in the selection, the question index, the score or the
  mistakes, which is the case as soon as an option was clicked after listening
  began. A session is orderly when no result is delivered to stale handlers.
\<close>

definition stale :: "QuizState \<Rightarrow> QuizState \<Rightarrow> bool" where
  "stale r s = (selectedOption r \<noteq> selectedOption s \<or> currentQuestionIndex r \<noteq> currentQuestionIndex s
     \<or> score r \<noteq> score s \<or> mistakes r \<noteq> mistakes s)"

definition timely :: "Page \<Rightarrow> event \<Rightarrow> bool" where
  "timely p e =
     (case e of
        SpeechResult spokenText \<Rightarrow> (case recogniser p of None \<Rightarrow> True | Some r \<Rightarrow> \<not> stale r (ui p))
      | _ \<Rightarrow> True)"

fun orderly :: "Env \<Rightarrow> Page \<Rightarrow> event list \<Rightarrow> bool" where
  "orderly env p [] = True"
| "orderly env p (e # es) = (timely p e \<and> orderly env (dispatch env p e) es)"

definition orderlySession :: "Env \<Rightarrow> bool \<Rightarrow> Level \<Rightarrow> Question list \<Rightarrow> event list \<Rightarrow> bool" where
  "orderlySession env supported lvl qs es = orderly env (mount supported (Data lvl) (Data qs)) es"

text \<open>
  The invariant of an orderly session on a level with questions. At most one
  callback is pending. While one is pending an option is selected, nothing has
  been written, the callback belongs to the question shown, and the mistakes are
  below 3 unless the callback ends the quiz. The handlers of the recogniser
  belong to a render without selection.
\<close>

definition listening :: "QuizState \<Rightarrow> QuizState \<Rightarrow> bool" where
  "listening r s = (selectedOption r = None \<and> questions r = questions s
     \<and> currentQuestionIndex r < length (questions r))"

definition evaluating :: "QuizState \<Rightarrow> callback \<Rightarrow> QuizState \<Rightarrow> bool" where
  "evaluating r cb s =
     (selectedOption s \<noteq> None \<and> writes (effects s) = [] \<and> questions r = questions s
      \<and> currentQuestionIndex r = currentQuestionIndex s
      \<and> currentQuestionIndex r < length (questions r)
      \<and> (case cb of CallNextQuestion \<Rightarrow> mistakes s < 3
                  | CallEndQuiz failedDueToMistakes \<Rightarrow> failedDueToMistakes \<and> mistakes s = 3))"

definition pageInv :: "Env \<Rightarrow> Page \<Rightarrow> bool" where
  "pageInv env p =
     ((case recogniser p of None \<Rightarrow> True | Some r \<Rightarrow> listening r (ui p))
      \<and> (case timers p of
            [] \<Rightarrow> sessionInv env (ui p)
          | t # ts \<Rightarrow> ts = [] \<and> evaluating (fst t) (snd t) (ui p)))"

text \<open>In every session the questions stay as they were loaded.\<close>

definition sameQuestions :: "Question list \<Rightarrow> Page \<Rightarrow> bool" where
  "sameQuestions qs p = (questions (ui p) = qs \<and> currentQuestionIndex (ui p) < length qs
     \<and> list_all (\<lambda>t. questions (fst t) = qs) (timers p)
     \<and> (case recogniser p of None \<Rightarrow> True | Some r \<Rightarrow> questions r = qs))"

text \<open>The events of a run: each click followed by its callback.\<close>

definition clicks :: "string list \<Rightarrow> event list" where
  "clicks as = concat (map (\<lambda>a. [Click a, Timeout 0]) as)"

subsection \<open>Sample data\<close>

text \<open>
  The first level of the seed migration and its first three questions (the image
  addresses are shortened), a learner whose progress update is accepted and one
  whose update is rejected.
\<close>

definition restaurantBasics :: Level where
  "restaurantBasics = \<lparr>level_id = ''level-1'', level_number = 1,
     title = ''Restaurant Basics'', level_image_url = ''photo-1517248135467''\<rparr>"

definition waiterQuestion :: Question where
  "waiterQuestion = \<lparr>question_id = ''question-1'',
     question_text = ''What do you call the person who serves food at a restaurant?'',
     image_url = ''photo-1556742049'',
     options = [''Waiter'', ''Chef'', ''Manager'', ''Cashier''],
     correct_answer = ''Waiter''\<rparr>"

definition menuQuestion :: Question where
  "menuQuestion = \<lparr>question_id = ''question-2'',
     question_text = ''What is the list of food items available at a restaurant called?'',
     image_url = ''photo-1555939594'',
     options = [''Menu'', ''Bill'', ''Receipt'', ''Order''],
     correct_answer = ''Menu''\<rparr>"

definition checkQuestion :: Question where
  "checkQuestion = \<lparr>question_id = ''question-3'',
     question_text = ''What do you ask for when you finish eating and want to pay?'',
     image_url = ''photo-1554224311'',
     options = [''Check'', ''Food'', ''Table'', ''Drink''],
     correct_answer = ''Check''\<rparr>"

definition learner :: Env where
  "learner = \<lparr>levelNumber = 1, user_id = ''learner'', progressError = None\<rparr>"

definition rejectedLearner :: Env where
  "rejectedLearner = \<lparr>levelNumber = 1, user_id = ''learner'',
     progressError = Some ''permission denied for table progress''\<rparr>"

text \<open>
  The state of the page after the answers Waiter (right) and Bill (wrong) to a
  level with the first two questions.
\<close>

definition finishedSession :: QuizState where
  "finishedSession = \<lparr>level = Some restaurantBasics, questions = [waiterQuestion, menuQuestion],
     currentQuestionIndex = 1, score = 1, mistakes = 1, isListening = False,
     selectedOption = Some ''Bill'', isCorrect = Some False, feedbackText = [], loading = False,
     effects = [Toast Correct, Toast Incorrect,
                ProgressUpdate ''learner'' 1 completed (Some 1),
                ProgressUpdate ''learner'' 2 unlocked None,
                Toast (LevelCompleted 1 2), Navigate ''/levels'']\<rparr>"

section \<open>Basic facts\<close>

subsection \<open>The writes and the outcome of a list of effects\<close>

lemma writes_append: "writes (xs @ ys) = writes xs @ writes ys"
  by (induction xs rule: writes.induct) simp_all

lemma outcomeOf_append:
  "outcomeOf (xs @ ys) = (case outcomeOf xs of None \<Rightarrow> outcomeOf ys | Some x \<Rightarrow> Some x)"
  by (induction xs rule: outcomeOf.induct) simp_all

lemma outcomeOf_writes: "outcomeOf (writes es) = outcomeOf es"
  by (induction es rule: outcomeOf.induct) simp_all

lemma outcome_no_writes: "writes es = [] \<Longrightarrow> outcomeOf es = None"
  using outcomeOf_writes [of es] by simp

subsection \<open>One submission\<close>

text \<open>A click while an option is selected does nothing.\<close>

lemma submitAnswer_ignored:
  "selectedOption s \<noteq> None \<Longrightarrow> submitAnswer env s a = Inr s"
  by (auto simp add: submitAnswer_def optionClick_def)

text \<open>Without a current question \<^verbatim>\<open>checkAnswer\<close> throws.\<close>

lemma submitAnswer_undefined:
  "selectedOption s = None \<Longrightarrow> \<not> currentQuestionIndex s < length (questions s) \<Longrightarrow>
   submitAnswer env s a = Inl TypeError"
  by (simp add: submitAnswer_def optionClick_def checkAnswer_def currentQuestion_def)

text \<open>
  The three ways of a submission on a presented question. The first argument
  of \<open>nextQuestion\<close> and \<open>endQuiz\<close> is \<open>s\<close>, the state before the click.
\<close>

lemma submitAnswer_step:
  assumes "selectedOption s = None" "currentQuestionIndex s < length (questions s)"
  shows "submitAnswer env s a = Inr
    (if a = correct_answer (questions s ! currentQuestionIndex s)
     then nextQuestion env s (emit (Toast Correct)
            (s\<lparr>selectedOption := Some a, isCorrect := Some True, score := score s + 1\<rparr>))
     else if mistakes s + 1 \<ge> 3
     then endQuiz env s (emit (Toast ThreeMistakes) (emit (Toast Incorrect)
            (s\<lparr>selectedOption := Some a, isCorrect := Some False, mistakes := mistakes s + 1\<rparr>))) True
     else nextQuestion env s (emit (Toast Incorrect)
            (s\<lparr>selectedOption := Some a, isCorrect := Some False, mistakes := mistakes s + 1\<rparr>)))"
  using assms
  by (simp add: submitAnswer_def optionClick_def checkAnswer_def currentQuestion_def fire_def Let_def)

text \<open>
  A spoken answer that the normaliser resolves is a click on the option it
  picked; one that it does not resolve changes the feedback text only, and no
  answer is scored.
\<close>

lemma handleSpeechResult_match:
  assumes "selectedOption r = None" "currentQuestion r = Some q"
    "findBestMatch spokenText (options q) = Some (m, sim)"
  shows "handleSpeechResult r s spokenText = optionClick r s m"
  using assms by (simp add: handleSpeechResult_def optionClick_def)

lemma handleSpeechResult_no_match:
  assumes "currentQuestion r = Some q" "findBestMatch spokenText (options q) = None"
  shows "\<exists>s'. handleSpeechResult r s spokenText = Inr (s', None) \<and> score s' = score s
    \<and> mistakes s' = mistakes s \<and> currentQuestionIndex s' = currentQuestionIndex s
    \<and> selectedOption s' = selectedOption s \<and> effects s' = effects s"
  using assms by (simp add: handleSpeechResult_def)

subsection \<open>The invariant\<close>

lemma sessionInv_start: "qs \<noteq> [] \<Longrightarrow> sessionInv env (start lvl qs)"
  by (simp add: sessionInv_def start_def fetchQuizData_def initialState_def)

lemma sessionInv_step:
  assumes "sessionInv env s" "submitAnswer env s a = Inr s'"
  shows "sessionInv env s'"
proof (cases "selectedOption s")
  case (Some b)
  then have "s' = s" using assms(2) by (simp add: submitAnswer_ignored)
  then show ?thesis using assms(1) by simp
next
  case None
  then have w: "writes (effects s) = []" and i: "currentQuestionIndex s < length (questions s)"
    and m: "mistakes s < 3"
    using assms(1) by (simp_all add: sessionInv_def)
  have o: "outcomeOf (effects s) = None" using w by (rule outcome_no_writes)
  show ?thesis
    using assms(2) None w i m o
    by (auto simp add: submitAnswer_step sessionInv_def nextQuestion_def endQuiz_def emit_def
        outcome_def intent_def writes_append outcomeOf_append Let_def
        split: option.splits if_splits)
qed

lemma sessionInv_total: "sessionInv env s \<Longrightarrow> \<exists>s'. submitAnswer env s a = Inr s'"
  by (cases "selectedOption s") (simp_all add: sessionInv_def submitAnswer_step submitAnswer_ignored)

lemma sessionInv_terminal: "sessionInv env s \<Longrightarrow> terminal s = (selectedOption s \<noteq> None)"
  by (auto simp add: sessionInv_def terminal_def outcome_def outcome_no_writes
      split: option.splits)

lemma submitAnswer_questions: "submitAnswer env s a = Inr s' \<Longrightarrow> questions s' = questions s"
  by (auto simp add: submitAnswer_def optionClick_def checkAnswer_def fire_def nextQuestion_def
      endQuiz_def emit_def Let_def split: option.splits if_splits)

subsection \<open>Runs\<close>

lemma run_append:
  "run env s (xs @ ys) = (case run env s xs of Inl e \<Rightarrow> Inl e | Inr s' \<Rightarrow> run env s' ys)"
  by (induction xs arbitrary: s) (simp_all split: sum.splits)

lemma run_sessionInv: "sessionInv env s \<Longrightarrow> run env s xs = Inr s' \<Longrightarrow> sessionInv env s'"
proof (induction xs arbitrary: s)
  case Nil
  then show ?case by simp
next
  case (Cons a xs)
  from Cons.prems(2) obtain t where t: "submitAnswer env s a = Inr t" and r: "run env t xs = Inr s'"
    by (auto split: sum.splits)
  from Cons.prems(1) t have "sessionInv env t" by (rule sessionInv_step)
  then show ?case using r by (rule Cons.IH)
qed

lemma run_total: "sessionInv env s \<Longrightarrow> \<exists>s'. run env s xs = Inr s'"
proof (induction xs arbitrary: s)
  case Nil
  then show ?case by simp
next
  case (Cons a xs)
  from Cons.prems obtain t where t: "submitAnswer env s a = Inr t"
    using sessionInv_total by blast
  with Cons.prems have "sessionInv env t" by (rule sessionInv_step)
  then obtain s' where "run env t xs = Inr s'" using Cons.IH by blast
  then show ?case using t by simp
qed

lemma run_questions: "run env s xs = Inr s' \<Longrightarrow> questions s' = questions s"
proof (induction xs arbitrary: s)
  case Nil
  then show ?case by simp
next
  case (Cons a xs)
  from Cons.prems obtain t where t: "submitAnswer env s a = Inr t" and r: "run env t xs = Inr s'"
    by (auto split: sum.splits)
  from r have "questions s' = questions t" by (rule Cons.IH)
  then show ?case using submitAnswer_questions [OF t] by simp
qed

lemma questions_start: "questions (start lvl qs) = qs"
  by (simp add: start_def fetchQuizData_def initialState_def)

lemmas session_defs = submitAnswer_def optionClick_def checkAnswer_def currentQuestion_def
  fire_def nextQuestion_def endQuiz_def emit_def start_def fetchQuizData_def initialState_def
  outcome_def terminal_def Let_def

lemmas sample_defs = restaurantBasics_def waiterQuestion_def menuQuestion_def checkQuestion_def
  learner_def rejectedLearner_def

lemma run_start_empty: "run env (start lvl []) xs = Inr s \<Longrightarrow> xs = []"
  by (cases xs) (simp_all add: submitAnswer_undefined start_def fetchQuizData_def initialState_def)

lemma run_start_inv:
  assumes "run env (start lvl qs) xs = Inr s" "qs \<noteq> []"
  shows "sessionInv env s \<and> questions s = qs"
proof -
  have "sessionInv env (start lvl qs)" using assms(2) by (rule sessionInv_start)
  then have "sessionInv env s" using assms(1) by (rule run_sessionInv)
  moreover have "questions s = qs" using run_questions [OF assms(1)] by (simp add: questions_start)
  ultimately show ?thesis by simp
qed

subsection \<open>Counting the answers\<close>

text \<open>
  While the session goes on, the index is the number of submissions, the score
  the number of right answers and the mistake count the number of wrong ones.
\<close>

lemma correctCount_Nil: "correctCount qs [] = 0"
  by (cases qs) simp_all

lemma wrongCount_Nil: "wrongCount qs [] = 0"
  by (cases qs) simp_all

lemma correctCount_snoc:
  "length xs < length qs \<Longrightarrow>
   correctCount qs (xs @ [a]) = correctCount qs xs + (if a = correct_answer (qs ! length xs) then 1 else 0)"
  by (induction qs xs rule: list_induct2') (simp_all add: correctCount_Nil)

lemma wrongCount_snoc:
  "length xs < length qs \<Longrightarrow>
   wrongCount qs (xs @ [a]) = wrongCount qs xs + (if a = correct_answer (qs ! length xs) then 0 else 1)"
  by (induction qs xs rule: list_induct2') (simp_all add: wrongCount_Nil)

lemma run_counts:
  "run env (start lvl qs) xs = Inr s \<Longrightarrow> selectedOption s = None \<Longrightarrow>
   currentQuestionIndex s = length xs \<and> score s = correctCount qs xs \<and> mistakes s = wrongCount qs xs"
proof (induction xs arbitrary: s rule: rev_induct)
  case Nil
  then show ?case by (auto simp add: start_def fetchQuizData_def initialState_def)
next
  case (snoc a xs)
  from snoc.prems(1) obtain t where t: "run env (start lvl qs) xs = Inr t"
    and st: "submitAnswer env t a = Inr s"
    by (auto simp add: run_append split: sum.splits)
  have sel: "selectedOption t = None"
  proof (rule ccontr)
    assume "selectedOption t \<noteq> None"
    then have "s = t" using st by (simp add: submitAnswer_ignored)
    with snoc.prems(2) \<open>selectedOption t \<noteq> None\<close> show False by simp
  qed
  have q: "questions t = qs" using run_questions [OF t] by (simp add: questions_start)
  have i: "currentQuestionIndex t < length qs"
  proof (rule ccontr)
    assume "\<not> currentQuestionIndex t < length qs"
    then have "submitAnswer env t a = Inl TypeError" using sel q by (simp add: submitAnswer_undefined)
    with st show False by simp
  qed
  from snoc.IH [OF t sel] have ih: "currentQuestionIndex t = length xs"
    "score t = correctCount qs xs" "mistakes t = wrongCount qs xs" by simp_all
  have l: "length xs < length qs" using i ih(1) by simp
  show ?case
    using st snoc.prems(2) sel i q ih
    by (auto simp add: submitAnswer_step nextQuestion_def endQuiz_def emit_def Let_def
        correctCount_snoc [OF l] wrongCount_snoc [OF l] split: if_splits option.splits)
qed

lemma run_nonterminal:
  assumes "run env (start lvl qs) xs = Inr s" "\<not> terminal s" "qs \<noteq> []"
  shows "selectedOption s = None \<and> currentQuestionIndex s < length qs \<and> questions s = qs
         \<and> outcomeOf (effects s) = None \<and> writes (effects s) = []"
proof -
  from run_start_inv [OF assms(1,3)] have i: "sessionInv env s" and q: "questions s = qs" by simp_all
  from i assms(2) have sel: "selectedOption s = None" by (simp add: sessionInv_terminal)
  with i q show ?thesis by (simp add: sessionInv_def outcome_no_writes)
qed

subsection \<open>The end of the quiz\<close>

lemma effects_emit: "effects (emit e s) = effects s @ [e]"
  by (simp add: emit_def)

lemma outcome_endQuiz:
  "outcomeOf (effects s) = None \<Longrightarrow>
   outcome (endQuiz env r s failedDueToMistakes) =
     Some (if failedDueToMistakes then FailedByMistakes else Completed,
           if failedDueToMistakes then 0 else score r)"
  by (simp add: outcome_def endQuiz_def emit_def outcomeOf_append Let_def split: option.splits)

lemma writes_endQuiz:
  "writes (effects (endQuiz env r s failedDueToMistakes)) =
     writes (effects s) @ intent env (if failedDueToMistakes then FailedByMistakes else Completed)
                            (if failedDueToMistakes then 0 else score r)"
  by (simp add: endQuiz_def emit_def writes_append intent_def Let_def split: option.splits)

lemma terminal_finished: "terminal finishedSession"
  by (simp add: terminal_def outcome_def finishedSession_def)

subsection \<open>A run of right answers\<close>

text \<open>
  After \<open>k\<close> right answers the page shows question \<open>k\<close> with score \<open>k\<close>. The
  last right answer raises the score of the page to the number of questions, and
  \<^verbatim>\<open>endQuiz\<close>, called from the callback of the render before that answer, takes
  the score of that render: one less.
\<close>

lemma all_correct_prefix:
  "k < length qs \<Longrightarrow>
   \<exists>s. run env (start lvl qs) (map correct_answer (take k qs)) = Inr s
     \<and> selectedOption s = None \<and> currentQuestionIndex s = k \<and> score s = k \<and> mistakes s = 0
     \<and> questions s = qs \<and> outcomeOf (effects s) = None \<and> writes (effects s) = []"
proof (induction k)
  case 0
  then show ?case by (simp add: start_def fetchQuizData_def initialState_def)
next
  case (Suc k)
  then have k: "k < length qs" by simp
  from Suc.IH [OF k] obtain s where s: "run env (start lvl qs) (map correct_answer (take k qs)) = Inr s"
    and f: "selectedOption s = None" "currentQuestionIndex s = k" "score s = k" "mistakes s = 0"
      "questions s = qs" "outcomeOf (effects s) = None" "writes (effects s) = []"
    by blast
  have t: "take (Suc k) qs = take k qs @ [qs ! k]" using k by (rule take_Suc_conv_app_nth)
  show ?case
    using s f Suc.prems
    by (simp add: t run_append submitAnswer_step nextQuestion_def emit_def
        outcomeOf_append writes_append)
qed

lemma all_correct_run:
  assumes "qs \<noteq> []"
  shows "\<exists>s. run env (start lvl qs) (map correct_answer qs) = Inr s
     \<and> outcome s = Some (Completed, length qs - 1) \<and> score s = length qs \<and> mistakes s = 0"
proof -
  let ?k = "length qs - 1"
  have k: "?k < length qs" using assms by simp
  from all_correct_prefix [OF k] obtain s where s: "run env (start lvl qs) (map correct_answer (take ?k qs)) = Inr s"
    and f: "selectedOption s = None" "currentQuestionIndex s = ?k" "score s = ?k" "mistakes s = 0"
      "questions s = qs" "outcomeOf (effects s) = None"
    by blast
  have "take (Suc ?k) qs = take ?k qs @ [qs ! ?k]" using k by (rule take_Suc_conv_app_nth)
  then have t: "qs = take ?k qs @ [qs ! ?k]" using assms by simp
  let ?t = "emit (Toast Correct)
            (s\<lparr>selectedOption := Some (correct_answer (qs ! ?k)), isCorrect := Some True, score := score s + 1\<rparr>)"
  have st: "submitAnswer env s (correct_answer (qs ! ?k)) = Inr (endQuiz env s ?t False)"
    using f k assms by (simp add: submitAnswer_step nextQuestion_def)
  have m: "map correct_answer qs = map correct_answer (take ?k qs @ [qs ! ?k])"
    using t by (rule arg_cong)
  have r: "run env (start lvl qs) (map correct_answer qs) = Inr (endQuiz env s ?t False)"
    using s st by (subst m) (simp add: run_append)
  have "outcome (endQuiz env s ?t False) = Some (Completed, ?k)"
    using f by (simp add: outcome_endQuiz effects_emit outcomeOf_append)
  moreover have "score (endQuiz env s ?t False) = length qs" "mistakes (endQuiz env s ?t False) = 0"
    using f assms by (simp_all add: endQuiz_def emit_def Let_def split: option.splits)
  ultimately show ?thesis using r by simp
qed

lemma correct_answer_scores:
  assumes "run env (start lvl qs) xs = Inr s" "\<not> terminal s" "qs \<noteq> []"
    "a = correct_answer (qs ! currentQuestionIndex s)"
  shows "\<exists>s'. submitAnswer env s a = Inr s' \<and> score s' = score s + 1 \<and> mistakes s' = mistakes s"
proof -
  from run_nonterminal [OF assms(1,2,3)] have sel: "selectedOption s = None"
    and i: "currentQuestionIndex s < length qs" and q: "questions s = qs" by simp_all
  show ?thesis
    using sel i q assms(4)
    by (simp add: submitAnswer_step nextQuestion_def endQuiz_def emit_def Let_def
        split: option.splits)
qed

section \<open>The page\<close>

subsection \<open>The invariant of orderly sessions\<close>

lemma pageInv_idle:
  "timers p = [] \<Longrightarrow> pageInv env p =
     ((case recogniser p of None \<Rightarrow> True | Some r \<Rightarrow> listening r (ui p)) \<and> sessionInv env (ui p))"
  by (simp add: pageInv_def)

lemma pageInv_pending:
  "timers p = [(r, cb)] \<Longrightarrow> pageInv env p =
     ((case recogniser p of None \<Rightarrow> True | Some r \<Rightarrow> listening r (ui p)) \<and> evaluating r cb (ui p))"
  by (simp add: pageInv_def)

lemma pageInv_shape:
  "pageInv env p \<Longrightarrow> timers p = [] \<or> (\<exists>r cb. timers p = [(r, cb)])"
  by (cases "timers p") (auto simp add: pageInv_def)

lemma click_pageInv:
  assumes "pageInv env p"
  shows "pageInv env (clickOption p option)"
proof -
  from pageInv_shape [OF assms] consider "timers p = []" | r cb where "timers p = [(r, cb)]" by blast
  then show ?thesis
  proof cases
    case 1
    show ?thesis
    proof (cases "selectedOption (ui p)")
      case (Some b)
      then show ?thesis using assms
        by (simp add: clickOption_def optionClick_def setTimeout_def split: option.splits)
    next
      case None
      with assms 1 have w: "writes (effects (ui p)) = []"
        and i: "currentQuestionIndex (ui p) < length (questions (ui p))"
        and m: "mistakes (ui p) < 3"
        by (simp_all add: pageInv_idle sessionInv_def)
      show ?thesis
        using assms 1 None w i m
        by (auto simp add: pageInv_def clickOption_def optionClick_def checkAnswer_def
            currentQuestion_def setTimeout_def emit_def writes_append Let_def
            evaluating_def listening_def split: option.splits)
    qed
  next
    case 2
    then show ?thesis using assms
      by (auto simp add: pageInv_pending clickOption_def optionClick_def setTimeout_def
          evaluating_def split: option.splits)
  qed
qed

lemma sessionInv_cong:
  assumes "selectedOption s' = selectedOption s" "effects s' = effects s"
    "currentQuestionIndex s' = currentQuestionIndex s" "questions s' = questions s"
    "mistakes s' = mistakes s"
  shows "sessionInv env s' = sessionInv env s"
  unfolding sessionInv_def outcome_def assms by (rule refl)

lemma evaluating_cong:
  assumes "selectedOption s' = selectedOption s" "effects s' = effects s"
    "currentQuestionIndex s' = currentQuestionIndex s" "questions s' = questions s"
    "mistakes s' = mistakes s"
  shows "evaluating r cb s' = evaluating r cb s"
  unfolding evaluating_def assms by (rule refl)

lemma pageInv_cong:
  assumes "pageInv env p" "timers p' = timers p"
    "recogniser p' = recogniser p \<or> recogniser p' = None"
    "selectedOption (ui p') = selectedOption (ui p)" "effects (ui p') = effects (ui p)"
    "currentQuestionIndex (ui p') = currentQuestionIndex (ui p)"
    "questions (ui p') = questions (ui p)" "mistakes (ui p') = mistakes (ui p)"
  shows "pageInv env p'"
proof -
  have s: "sessionInv env (ui p') = sessionInv env (ui p)"
    using assms(4-8) by (rule sessionInv_cong)
  have e: "\<And>r cb. evaluating r cb (ui p') = evaluating r cb (ui p)"
    using assms(4-8) by (rule evaluating_cong)
  have l: "\<And>r. listening r (ui p') = listening r (ui p)"
    using assms(7) by (simp add: listening_def)
  show ?thesis
    using assms(1,2,3) by (auto simp add: pageInv_def s e l split: option.splits list.splits)
qed

lemma pageInv_presenting:
  "pageInv env p \<Longrightarrow> selectedOption (ui p) = None \<Longrightarrow> timers p = []"
  by (cases "timers p") (auto simp add: pageInv_def evaluating_def)

lemma sessionInv_toast:
  "sessionInv env (emit (Toast t) s) = sessionInv env s"
  by (simp add: sessionInv_def emit_def writes_append outcome_def outcomeOf_append
      split: option.splits)

lemma emit_fields:
  "questions (emit e s) = questions s" "selectedOption (emit e s) = selectedOption s"
  "currentQuestionIndex (emit e s) = currentQuestionIndex s" "mistakes (emit e s) = mistakes s"
  "score (emit e s) = score s"
  by (simp_all add: emit_def)

lemma startListening_pageInv:
  assumes "pageInv env p"
  shows "pageInv env (startListening p)"
proof (cases "currentQuestion (ui p) = None \<or> isListening (ui p) \<or> selectedOption (ui p) \<noteq> None")
  case True
  then show ?thesis using assms by (simp add: startListening_def)
next
  case False
  then have sel: "selectedOption (ui p) = None" by simp
  have t: "timers p = []" using assms sel by (rule pageInv_presenting)
  have i: "currentQuestionIndex (ui p) < length (questions (ui p))"
    using False by (auto simp add: currentQuestion_def split: if_splits)
  show ?thesis
  proof (cases "recognition p")
    case False
    have "pageInv env (p\<lparr>ui := emit (Toast SpeechNotAvailable) (ui p)\<rparr>)"
      using assms t
      by (auto simp add: pageInv_def sessionInv_toast listening_def emit_fields split: option.splits)
    then show ?thesis using False sel \<open>\<not> (currentQuestion (ui p) = None \<or> isListening (ui p) \<or> selectedOption (ui p) \<noteq> None)\<close>
      by (auto simp add: startListening_def)
  next
    case True
    let ?p = "p\<lparr>ui := (ui p)\<lparr>isListening := True, feedbackText := ''Listening...''\<rparr>,
             recogniser := Some (ui p)\<rparr>"
    have "sessionInv env (ui ?p) = sessionInv env (ui p)"
      by (rule sessionInv_cong) simp_all
    then have "pageInv env ?p"
      using assms t sel i by (simp add: pageInv_def listening_def)
    then show ?thesis using True False by (auto simp add: startListening_def)
  qed
qed

lemma onend_pageInv: "pageInv env p \<Longrightarrow> pageInv env (onend p)"
  by (rule pageInv_cong [of env p]) (simp_all add: onend_def)

lemma onerror_pageInv: "pageInv env p \<Longrightarrow> pageInv env (onerror p)"
  by (cases "recogniser p") (auto simp add: onerror_def onend_def intro: pageInv_cong [of env p])

lemma onresult_pageInv:
  assumes "pageInv env p" "timely p (SpeechResult spokenText)"
  shows "pageInv env (onresult p spokenText)"
proof (cases "recogniser p")
  case None
  then show ?thesis using assms(1) by (simp add: onresult_def)
next
  case (Some r)
  with assms have l: "listening r (ui p)" and f: "\<not> stale r (ui p)"
    by (simp_all add: pageInv_def timely_def)
  from l f have sel: "selectedOption (ui p) = None" by (simp add: listening_def stale_def)
  have t: "timers p = []" using assms(1) sel by (rule pageInv_presenting)
  from assms(1) t sel have w: "writes (effects (ui p)) = []"
    and i: "currentQuestionIndex (ui p) < length (questions (ui p))"
    and m: "mistakes (ui p) < 3"
    by (simp_all add: pageInv_idle sessionInv_def)
  from l f have r: "selectedOption r = None" "questions r = questions (ui p)"
    "currentQuestionIndex r = currentQuestionIndex (ui p)" "mistakes r = mistakes (ui p)"
    by (simp_all add: listening_def stale_def)
  show ?thesis
  proof (cases "findBestMatch spokenText (options (questions r ! currentQuestionIndex r))")
    case None
    have "pageInv env (onresult p spokenText) = pageInv env p"
      using Some None r i t sel w m
      by (simp add: onresult_def handleSpeechResult_def currentQuestion_def setTimeout_def
          onend_def pageInv_def sessionInv_def outcome_def listening_def Let_def)
    then show ?thesis using assms(1) by simp
  next
    case (Some matchResult)
    show ?thesis
      using \<open>recogniser p = Some r\<close> Some r i t sel w m
      by (auto simp add: onresult_def handleSpeechResult_def currentQuestion_def checkAnswer_def
          setTimeout_def onend_def pageInv_def evaluating_def emit_def writes_append Let_def)
  qed
qed

lemma timeout_pageInv:
  assumes "pageInv env p"
  shows "pageInv env (timeout env p i)"
proof -
  from pageInv_shape [OF assms] consider "timers p = []" | r cb where "timers p = [(r, cb)]" by blast
  then show ?thesis
  proof cases
    case 1
    then show ?thesis using assms by (simp add: timeout_def)
  next
    case 2
    show ?thesis
    proof (cases i)
      case (Suc j)
      then show ?thesis using assms 2 by (simp add: timeout_def)
    next
      case 0
      from assms 2 have e: "evaluating r cb (ui p)"
        and l: "case recogniser p of None \<Rightarrow> True | Some r \<Rightarrow> listening r (ui p)"
        by (simp_all add: pageInv_pending)
      have o: "outcomeOf (effects (ui p)) = None"
        using e by (simp add: evaluating_def outcome_no_writes)
      have q: "questions (fire env r (ui p) cb) = questions (ui p)"
        by (cases cb) (simp_all add: fire_def nextQuestion_def endQuiz_def emit_def Let_def
            split: option.splits)
      have s: "sessionInv env (fire env r (ui p) cb)"
      proof (cases cb)
        case CallNextQuestion
        show ?thesis
        proof (cases "currentQuestionIndex r + 1 < length (questions r)")
          case True
          then show ?thesis using e CallNextQuestion
            by (simp add: fire_def nextQuestion_def sessionInv_def evaluating_def)
        next
          case False
          then have n: "fire env r (ui p) cb = endQuiz env r (ui p) False"
            using CallNextQuestion by (simp add: fire_def nextQuestion_def)
          have "selectedOption (endQuiz env r (ui p) False) = selectedOption (ui p)"
            "mistakes (endQuiz env r (ui p) False) = mistakes (ui p)"
            "currentQuestionIndex (endQuiz env r (ui p) False) = currentQuestionIndex (ui p)"
            "questions (endQuiz env r (ui p) False) = questions (ui p)"
            by (simp_all add: endQuiz_def emit_def Let_def split: option.splits)
          then have "sessionInv env (endQuiz env r (ui p) False)"
            using e False o CallNextQuestion
            by (auto simp add: sessionInv_def evaluating_def outcome_endQuiz writes_endQuiz)
          then show ?thesis by (simp add: n)
        qed
      next
        case (CallEndQuiz b)
        have "selectedOption (endQuiz env r (ui p) True) = selectedOption (ui p)"
          "mistakes (endQuiz env r (ui p) True) = mistakes (ui p)"
          by (simp_all add: endQuiz_def emit_def Let_def split: option.splits)
        then have "sessionInv env (endQuiz env r (ui p) True)"
          using e CallEndQuiz o
          by (auto simp add: sessionInv_def evaluating_def outcome_endQuiz writes_endQuiz)
        then show ?thesis using e CallEndQuiz by (simp add: fire_def evaluating_def)
      qed
      show ?thesis
        using 0 2 s l q by (auto simp add: timeout_def pageInv_def listening_def split: option.splits)
    qed
  qed
qed

lemma dispatch_pageInv:
  assumes "pageInv env p" "timely p e"
  shows "pageInv env (dispatch env p e)"
proof (cases e)
  case (Click option)
  then show ?thesis using assms(1) by (simp add: click_pageInv)
next
  case StartListening
  then show ?thesis using assms(1) by (simp add: startListening_pageInv)
next
  case (SpeechResult spokenText)
  then show ?thesis using assms by (simp add: onresult_pageInv)
next
  case SpeechError
  then show ?thesis using assms(1) by (simp add: onerror_pageInv)
next
  case SpeechEnd
  then show ?thesis using assms(1) by (simp add: onend_pageInv split: option.splits)
next
  case (Timeout i)
  then show ?thesis using assms(1) by (simp add: timeout_pageInv)
qed

lemma exec_pageInv:
  "pageInv env p \<Longrightarrow> orderly env p es \<Longrightarrow> pageInv env (exec env p es)"
  by (induction es arbitrary: p) (simp_all add: dispatch_pageInv)

lemma mount_pageInv:
  "qs \<noteq> [] \<Longrightarrow> pageInv env (mount supported (Data lvl) (Data qs))"
  by (simp add: pageInv_def mount_def sessionInv_def fetchQuizData_def initialState_def emit_def)

subsection \<open>All sessions\<close>

text \<open>
  On a level without questions no event changes the page. On any level the
  questions stay, and the question index stays below their number, stale
  results or not.
\<close>

lemma dispatch_inert:
  assumes "currentQuestion (ui p) = None" "timers p = []" "recogniser p = None"
  shows "dispatch env p e = p"
  using assms
  by (cases e) (simp_all add: clickOption_def startListening_def onresult_def onerror_def timeout_def)

lemma exec_inert:
  assumes "currentQuestion (ui p) = None" "timers p = []" "recogniser p = None"
  shows "exec env p es = p"
  using assms by (induction es) (simp_all add: dispatch_inert)

lemma exec_append: "exec env p (es @ fs) = exec env (exec env p es) fs"
  by (induction es arbitrary: p) simp_all

lemma mount_empty:
  "exec env (mount supported (Data lvl) (Data [])) es = mount supported (Data lvl) (Data [])"
  by (rule exec_inert)
     (simp_all add: mount_def currentQuestion_def fetchQuizData_def initialState_def emit_def)

lemma ui_mount: "ui (mount True (Data lvl) (Data qs)) = start lvl qs"
  by (simp add: mount_def start_def)

lemma mount_not_terminal: "\<not> terminal (ui (mount supported (Data lvl) (Data qs)))"
  by (simp add: mount_def fetchQuizData_def initialState_def emit_def terminal_def outcome_def)

lemma questions_mount: "questions (ui (mount supported (Data lvl) (Data qs))) = qs"
  by (simp add: mount_def fetchQuizData_def initialState_def emit_def)

lemma fire_questions: "questions (fire env r s cb) = questions s"
  by (cases cb) (simp_all add: fire_def nextQuestion_def endQuiz_def emit_def Let_def
      split: option.splits)

lemma fire_index:
  "currentQuestionIndex s < length (questions r) \<Longrightarrow>
   currentQuestionIndex (fire env r s cb) < length (questions r)"
  by (cases cb) (simp_all add: fire_def nextQuestion_def endQuiz_def emit_def Let_def
      split: option.splits)

lemma checkAnswer_same:
  "checkAnswer r s a = Inr (s', cb) \<Longrightarrow>
   questions s' = questions s \<and> currentQuestionIndex s' = currentQuestionIndex s"
  by (auto simp add: checkAnswer_def emit_def Let_def split: option.splits if_splits)

lemma dispatch_sameQuestions:
  assumes "sameQuestions qs p"
  shows "sameQuestions qs (dispatch env p e)"
proof (cases e)
  case (Click option)
  then show ?thesis using assms
    by (auto simp add: sameQuestions_def clickOption_def optionClick_def setTimeout_def
        dest: checkAnswer_same split: option.splits sum.splits if_splits)
next
  case StartListening
  then show ?thesis using assms
    by (auto simp add: sameQuestions_def startListening_def emit_def split: option.splits)
next
  case (SpeechResult spokenText)
  then show ?thesis using assms
    by (auto simp add: sameQuestions_def onresult_def onend_def handleSpeechResult_def setTimeout_def
        Let_def dest: checkAnswer_same split: option.splits sum.splits if_splits)
next
  case SpeechError
  then show ?thesis using assms
    by (auto simp add: sameQuestions_def onerror_def onend_def split: option.splits)
next
  case SpeechEnd
  then show ?thesis using assms
    by (auto simp add: sameQuestions_def onend_def split: option.splits)
next
  case (Timeout i)
  show ?thesis
  proof (cases "i < length (timers p)")
    case False
    then show ?thesis using assms Timeout by (simp add: timeout_def)
  next
    case True
    obtain r cb where t: "timers p ! i = (r, cb)" by (cases "timers p ! i")
    have "(r, cb) \<in> set (timers p)" using True t by (metis nth_mem)
    then have q: "questions r = qs" using assms by (auto simp add: sameQuestions_def list_all_iff)
    have a: "list_all (\<lambda>t. questions (fst t) = qs) (take i (timers p) @ drop (Suc i) (timers p))"
      using assms by (auto simp add: sameQuestions_def list_all_iff dest: in_set_takeD in_set_dropD)
    have "currentQuestionIndex (fire env r (ui p) cb) < length (questions r)"
      using assms q by (intro fire_index) (simp add: sameQuestions_def)
    then show ?thesis
      using assms Timeout True t q a
      by (simp add: sameQuestions_def timeout_def fire_questions)
  qed
qed

lemma exec_sameQuestions: "sameQuestions qs p \<Longrightarrow> sameQuestions qs (exec env p es)"
  by (induction es arbitrary: p) (simp_all add: dispatch_sameQuestions)

lemma index_bound:
  "qs \<noteq> [] \<Longrightarrow>
   currentQuestionIndex (ui (exec env (mount supported (Data lvl) (Data qs)) es)) < length qs"
proof -
  assume "qs \<noteq> []"
  then have "sameQuestions qs (mount supported (Data lvl) (Data qs))"
    by (simp add: sameQuestions_def mount_def fetchQuizData_def initialState_def emit_def)
  then have "sameQuestions qs (exec env (mount supported (Data lvl) (Data qs)) es)"
    by (rule exec_sameQuestions)
  then show ?thesis by (simp add: sameQuestions_def)
qed

subsection \<open>Runs as sessions\<close>

text \<open>
  A run is the orderly session of its clicks, each followed by its callback.
\<close>

lemma orderly_clicks: "orderly env p (clicks as)"
  by (induction as arbitrary: p) (simp_all add: clicks_def timely_def)

lemma submit_events:
  assumes "submitAnswer env (ui p) a = Inr s'" "timers p = []"
  shows "exec env p [Click a, Timeout 0] = p\<lparr>ui := s'\<rparr>"
proof (cases "selectedOption (ui p)")
  case (Some b)
  then have "s' = ui p" using assms(1) by (simp add: submitAnswer_ignored)
  then show ?thesis using Some assms(2)
    by (simp add: clickOption_def optionClick_def setTimeout_def timeout_def split: option.splits)
next
  case None
  then show ?thesis using assms
    by (auto simp add: submitAnswer_def clickOption_def optionClick_def checkAnswer_def
        setTimeout_def timeout_def Let_def split: option.splits if_splits)
qed

lemma run_exec:
  "run env (ui p) as = Inr s' \<Longrightarrow> timers p = [] \<Longrightarrow> exec env p (clicks as) = p\<lparr>ui := s'\<rparr>"
proof (induction as arbitrary: p)
  case Nil
  then show ?case by (simp add: clicks_def)
next
  case (Cons a as)
  from Cons.prems(1) obtain t where t: "submitAnswer env (ui p) a = Inr t"
    and r: "run env t as = Inr s'"
    by (auto split: sum.splits)
  have e: "exec env p [Click a, Timeout 0] = p\<lparr>ui := t\<rparr>"
    using t Cons.prems(2) by (rule submit_events)
  have "exec env (p\<lparr>ui := t\<rparr>) (clicks as) = p\<lparr>ui := t\<rparr>\<lparr>ui := s'\<rparr>"
    using r Cons.prems(2) by (intro Cons.IH) simp_all
  then show ?case using e by (simp add: clicks_def)
qed

lemma run_session:
  assumes "run env (start lvl qs) as = Inr s"
  shows "ui (session env True lvl qs (clicks as)) = s \<and> timers (session env True lvl qs (clicks as)) = []
    \<and> orderlySession env True lvl qs (clicks as)"
proof -
  let ?p = "mount True (Data lvl) (Data qs)"
  have "run env (ui ?p) as = Inr s" using assms by (simp add: ui_mount)
  moreover have "timers ?p = []" by (simp add: mount_def)
  ultimately have "exec env ?p (clicks as) = ?p\<lparr>ui := s\<rparr>" by (rule run_exec)
  then show ?thesis by (simp add: session_def orderlySession_def orderly_clicks mount_def)
qed

subsection \<open>Orderly sessions from the start\<close>

lemma session_pageInv:
  "qs \<noteq> [] \<Longrightarrow> orderlySession env supported lvl qs es \<Longrightarrow>
   pageInv env (session env supported lvl qs es)"
  unfolding session_def orderlySession_def by (intro exec_pageInv mount_pageInv)

lemma session_questions: "questions (ui (session env supported lvl qs es)) = qs"
proof (cases "qs = []")
  case True
  then show ?thesis by (simp add: session_def mount_empty questions_mount)
next
  case False
  then have "sameQuestions qs (mount supported (Data lvl) (Data qs))"
    by (simp add: sameQuestions_def mount_def fetchQuizData_def initialState_def emit_def)
  then have "sameQuestions qs (session env supported lvl qs es)"
    unfolding session_def by (rule exec_sameQuestions)
  then show ?thesis by (simp add: sameQuestions_def)
qed

lemma pageInv_terminal:
  assumes "pageInv env p" "terminal (ui p)"
  shows "timers p = [] \<and> sessionInv env (ui p) \<and> selectedOption (ui p) \<noteq> None"
proof -
  have t: "timers p = []"
  proof (cases "timers p")
    case Nil
    then show ?thesis .
  next
    case (Cons t ts)
    with assms(1) have "writes (effects (ui p)) = []" by (simp add: pageInv_def evaluating_def)
    then have "outcomeOf (effects (ui p)) = None" by (rule outcome_no_writes)
    with assms(2) show ?thesis by (simp add: terminal_def outcome_def)
  qed
  with assms(1) have i: "sessionInv env (ui p)" by (simp add: pageInv_idle)
  with assms(2) have "selectedOption (ui p) \<noteq> None" by (simp add: sessionInv_terminal)
  with t i show ?thesis by simp
qed

lemma session_terminal:
  assumes "orderlySession env supported lvl qs es" "terminal (ui (session env supported lvl qs es))"
  shows "timers (session env supported lvl qs es) = []
    \<and> sessionInv env (ui (session env supported lvl qs es))
    \<and> selectedOption (ui (session env supported lvl qs es)) \<noteq> None"
proof -
  have ne: "qs \<noteq> []"
  proof
    assume "qs = []"
    then have "session env supported lvl qs es = mount supported (Data lvl) (Data [])"
      by (simp add: session_def mount_empty)
    with assms(2) show False by (simp add: mount_not_terminal)
  qed
  from session_pageInv [OF ne assms(1)] assms(2) show ?thesis by (rule pageInv_terminal)
qed

lemma sessionInv_mistakes:
  assumes "sessionInv env s"
  shows "mistakes s \<le> 3"
proof (cases "selectedOption s")
  case None
  then show ?thesis using assms by (simp add: sessionInv_def)
next
  case (Some b)
  with assms obtain k sc where o: "outcome s = Some (k, sc)"
    by (cases "outcome s") (auto simp add: sessionInv_def)
  show ?thesis using assms Some o by (cases k) (simp_all add: sessionInv_def)
qed

subsection \<open>Sample sessions\<close>

text \<open>
  A session with a spoken answer, a session of clicks, and a session that
  stands between the third wrong click and its callback.
\<close>

lemmas match_defs = compareTwoStrings_def trim_def toLowerCase_def
  isWhiteSpace_def isUpperCase_def lowerChar_def

lemmas event_defs = session_def orderlySession_def mount_def setTimeout_def clickOption_def
  startListening_def onend_def onresult_def onerror_def timeout_def timely_def stale_def
  handleSpeechResult_def

lemma sample_matches:
  "findBestMatch ''waiter'' [''Waiter'', ''Chef'', ''Manager'', ''Cashier''] = Some (''Waiter'', 1)"
  "findBestMatch ''chef'' [''Waiter'', ''Chef'', ''Manager'', ''Cashier''] = Some (''Chef'', 1)"
  "findBestMatch ''bill'' [''Menu'', ''Bill'', ''Receipt'', ''Order''] = Some (''Bill'', 1)"
  by (simp_all add: findBestMatch_def match_defs)

lemma sample_session:
  "session learner True restaurantBasics [waiterQuestion, menuQuestion]
     [StartListening, SpeechResult ''waiter'', Timeout 0, Click ''Bill'', Timeout 0]
     = \<lparr>ui = finishedSession, timers = [], recogniser = None, recognition = True\<rparr>"
  "orderlySession learner True restaurantBasics [waiterQuestion, menuQuestion]
     [StartListening, SpeechResult ''waiter'', Timeout 0, Click ''Bill'', Timeout 0]"
  by (simp_all add: event_defs session_defs sample_defs sample_matches finishedSession_def)

lemma sample_evaluating:
  "orderlySession learner True restaurantBasics [waiterQuestion, menuQuestion, checkQuestion]
     [Click ''Chef'', Timeout 0, StartListening, SpeechResult ''bill'', Timeout 0, Click ''Food'']"
  "\<not> terminal (ui (session learner True restaurantBasics [waiterQuestion, menuQuestion, checkQuestion]
     [Click ''Chef'', Timeout 0, StartListening, SpeechResult ''bill'', Timeout 0, Click ''Food'']))"
  "mistakes (ui (session learner True restaurantBasics [waiterQuestion, menuQuestion, checkQuestion]
     [Click ''Chef'', Timeout 0, StartListening, SpeechResult ''bill'', Timeout 0, Click ''Food''])) = 3"
  "currentQuestionIndex (ui (session learner True restaurantBasics [waiterQuestion, menuQuestion, checkQuestion]
     [Click ''Chef'', Timeout 0, StartListening, SpeechResult ''bill'', Timeout 0, Click ''Food''])) = 2"
  by (simp_all add: event_defs session_defs sample_defs sample_matches)

lemma sample_clicks:
  "session learner True restaurantBasics [waiterQuestion, menuQuestion]
     [Click ''Waiter'', Timeout 0, Click ''Bill'', Timeout 0]
     = \<lparr>ui = finishedSession, timers = [], recogniser = None, recognition = True\<rparr>"
  by (simp add: event_defs session_defs sample_defs finishedSession_def)

subsection \<open>Sessions with a stale result\<close>

text \<open>
  A recogniser that was started before a click delivers its result after it:
  \<^verbatim>\<open>handleSpeechResult\<close> runs \<^verbatim>\<open>checkAnswer\<close> in the stale render and a second
  callback is scheduled. Then \<^verbatim>\<open>endQuiz\<close> can run twice and write twice; a
  session that has not ended can count four mistakes; and the callback of the
  stale render can clear the selection after the quiz has ended, so that the
  next click is counted.
\<close>

lemma stale_result_double_write:
  "\<not> orderlySession learner True restaurantBasics [waiterQuestion]
       [StartListening, Click ''Waiter'', SpeechResult ''waiter'', Timeout 0, Timeout 0]"
  "writes (effects (ui (session learner True restaurantBasics [waiterQuestion]
       [StartListening, Click ''Waiter'', SpeechResult ''waiter'', Timeout 0, Timeout 0])))
     = [ProgressUpdate ''learner'' 1 completed (Some 0), ProgressUpdate ''learner'' 2 unlocked None,
        ProgressUpdate ''learner'' 1 completed (Some 0), ProgressUpdate ''learner'' 2 unlocked None]"
  by (simp_all add: event_defs session_defs sample_defs sample_matches)

lemma stale_result_four_mistakes:
  "\<not> orderlySession learner True restaurantBasics [waiterQuestion, menuQuestion, checkQuestion]
       [Click ''Chef'', Timeout 0, StartListening, Click ''Bill'', SpeechResult ''bill'', Timeout 0,
        Click ''Food'', Timeout 0, Click ''Food'']"
  "\<not> terminal (ui (session learner True restaurantBasics [waiterQuestion, menuQuestion, checkQuestion]
       [Click ''Chef'', Timeout 0, StartListening, Click ''Bill'', SpeechResult ''bill'', Timeout 0,
        Click ''Food'', Timeout 0, Click ''Food'']))"
  "mistakes (ui (session learner True restaurantBasics [waiterQuestion, menuQuestion, checkQuestion]
       [Click ''Chef'', Timeout 0, StartListening, Click ''Bill'', SpeechResult ''bill'', Timeout 0,
        Click ''Food'', Timeout 0, Click ''Food''])) = 4"
  by (simp_all add: event_defs session_defs sample_defs sample_matches)

lemma stale_result_click_processed:
  "\<not> orderlySession learner True restaurantBasics [waiterQuestion, menuQuestion]
       [StartListening, Click ''Chef'', Timeout 0, Click ''Bill'', SpeechResult ''chef'', Timeout 0,
        Timeout 0]"
  "terminal (ui (session learner True restaurantBasics [waiterQuestion, menuQuestion]
       [StartListening, Click ''Chef'', Timeout 0, Click ''Bill'', SpeechResult ''chef'', Timeout 0,
        Timeout 0]))"
  "mistakes (ui (session learner True restaurantBasics [waiterQuestion, menuQuestion]
       [StartListening, Click ''Chef'', Timeout 0, Click ''Bill'', SpeechResult ''chef'', Timeout 0,
        Timeout 0])) = 1"
  "mistakes (ui (session learner True restaurantBasics [waiterQuestion, menuQuestion]
       [StartListening, Click ''Chef'', Timeout 0, Click ''Bill'', SpeechResult ''chef'', Timeout 0,
        Timeout 0, Click ''Bill''])) = 2"
  by (simp_all add: event_defs session_defs sample_defs sample_matches)

section \<open>The session\<close>

subsection \<open>Starting\<close>

text \<open>
  Claim C7. \<open>start(level)\<close> gives a session at question index 0 with score 0
  and no mistakes that has not ended, and for a level without questions the
  session it gives cannot be used: \<^verbatim>\<open>fetchQuizData\<close> reports nothing itself
  (no message, no navigation), but the page has no current question (no question
  card, no option button and no microphone button is rendered), and
  \<^verbatim>\<open>checkAnswer\<close> and \<^verbatim>\<open>handleSpeechResult\<close> throw on it for every answer.
  A session has a current question exactly when the level has a question.
\<close>

theorem start_session:
  "currentQuestionIndex (start lvl qs) = 0 \<and> score (start lvl qs) = 0 \<and> mistakes (start lvl qs) = 0
   \<and> \<not> terminal (start lvl qs) \<and> questions (start lvl qs) = qs
   \<and> effects (start lvl qs) = []
   \<and> (currentQuestion (start lvl qs) \<noteq> None) = (qs \<noteq> [])
   \<and> (qs = [] \<longrightarrow> submitAnswer env (start lvl qs) a = Inl TypeError
                  \<and> handleSpeechResult (start lvl qs) (start lvl qs) spokenText = Inl TypeError)"
  by (simp add: session_defs handleSpeechResult_def)

theorem start_session_witness:
  "currentQuestionIndex (start restaurantBasics []) = 0 \<and> \<not> terminal (start restaurantBasics [])
   \<and> currentQuestion (start restaurantBasics []) = None
   \<and> submitAnswer learner (start restaurantBasics []) ''Waiter'' = Inl TypeError
   \<and> handleSpeechResult (start restaurantBasics []) (start restaurantBasics []) ''waiter'' = Inl TypeError"
  using start_session [of restaurantBasics "[]" learner "''Waiter''" "''waiter''"] by simp

subsection \<open>Bounds\<close>

text \<open>
  Claim C8, for a level that has at least one question and a session without
  stale results. In every orderly session that \<open>start(level)\<close> began, of clicks,
  spoken answers and callbacks in any order, while the session has not ended
  its mistake count is at most 3 and its question index is below the number of
  questions. (The index bound holds in every session, \<open>index_bound\<close>; for the
  mistakes see \<open>stale_result_four_mistakes\<close>.)
\<close>

theorem session_bounds:
  assumes "qs \<noteq> []" "orderlySession env supported lvl qs es"
  shows "\<not> terminal (ui (session env supported lvl qs es)) \<longrightarrow>
     mistakes (ui (session env supported lvl qs es)) \<le> 3
     \<and> currentQuestionIndex (ui (session env supported lvl qs es)) < length qs"
proof -
  let ?p = "session env supported lvl qs es"
  have i: "pageInv env ?p" using assms by (rule session_pageInv)
  have x: "currentQuestionIndex (ui ?p) < length qs"
    unfolding session_def using assms(1) by (rule index_bound)
  have "mistakes (ui ?p) \<le> 3"
  proof (cases "timers ?p")
    case Nil
    with i have "sessionInv env (ui ?p)" by (simp add: pageInv_idle)
    then show ?thesis by (rule sessionInv_mistakes)
  next
    case (Cons t ts)
    with i have "evaluating (fst t) (snd t) (ui ?p)" by (simp add: pageInv_def)
    then show ?thesis by (cases "snd t") (simp_all add: evaluating_def)
  qed
  with x show ?thesis by simp
qed

theorem session_bounds_witness:
  "[waiterQuestion, menuQuestion, checkQuestion] \<noteq> []
   \<and> orderlySession learner True restaurantBasics [waiterQuestion, menuQuestion, checkQuestion]
       [Click ''Chef'', Timeout 0, StartListening, SpeechResult ''bill'', Timeout 0, Click ''Food'']
   \<and> \<not> terminal (ui (session learner True restaurantBasics [waiterQuestion, menuQuestion, checkQuestion]
       [Click ''Chef'', Timeout 0, StartListening, SpeechResult ''bill'', Timeout 0, Click ''Food'']))
   \<and> mistakes (ui (session learner True restaurantBasics [waiterQuestion, menuQuestion, checkQuestion]
       [Click ''Chef'', Timeout 0, StartListening, SpeechResult ''bill'', Timeout 0, Click ''Food''])) \<le> 3
   \<and> currentQuestionIndex (ui (session learner True restaurantBasics
       [waiterQuestion, menuQuestion, checkQuestion]
       [Click ''Chef'', Timeout 0, StartListening, SpeechResult ''bill'', Timeout 0, Click ''Food'']))
       < length [waiterQuestion, menuQuestion, checkQuestion]"
proof -
  have ne: "[waiterQuestion, menuQuestion, checkQuestion] \<noteq> []" by simp
  from session_bounds [OF ne sample_evaluating(1)] sample_evaluating(1,2) show ?thesis by simp
qed

text \<open>
  A run of clicks from \<open>start(level)\<close> raises no exception and keeps the
  bounds between the submissions.
\<close>

lemma run_bounds:
  assumes "qs \<noteq> []"
  shows "\<exists>s. run env (start lvl qs) xs = Inr s \<and>
    (\<not> terminal s \<longrightarrow> mistakes s \<le> 3 \<and> currentQuestionIndex s < length qs)"
proof -
  have inv: "sessionInv env (start lvl qs)" using assms by (rule sessionInv_start)
  then obtain s where s: "run env (start lvl qs) xs = Inr s" using run_total by blast
  have i: "sessionInv env s" using inv s by (rule run_sessionInv)
  have q: "questions s = qs" using run_questions [OF s] by (simp add: questions_start)
  have "\<not> terminal s \<longrightarrow> mistakes s \<le> 3 \<and> currentQuestionIndex s < length qs"
    using i q by (auto simp add: sessionInv_terminal sessionInv_def)
  with s show ?thesis by blast
qed

text \<open>
  Started on a level without questions, the session has not ended and its index
  0 is not below the number of questions, 0.
\<close>

theorem session_bounds_counterexample:
  "\<not> terminal (start restaurantBasics []) \<and>
   \<not> currentQuestionIndex (start restaurantBasics []) < length (questions (start restaurantBasics []))"
  by (simp add: session_defs)

subsection \<open>The third mistake\<close>

text \<open>
  An incorrect answer submitted with two mistakes counted takes the branch
  \<^verbatim>\<open>newMistakes >= 3\<close> of \<^verbatim>\<open>checkAnswer\<close>, whose callback is \<^verbatim>\<open>endQuiz(true)\<close>.
\<close>

lemma third_wrong_submission:
  assumes "selectedOption s = None" "currentQuestion s = Some q" "\<not> terminal s"
    "mistakes s = 2" "a \<noteq> correct_answer q"
  shows "\<exists>s'. submitAnswer env s a = Inr s' \<and> outcome s' = Some (FailedByMistakes, 0)
    \<and> writes (effects s')
        = writes (effects s) @ [ProgressUpdate (user_id env) (levelNumber env) unlocked (Some 0)]
    \<and> mistakes s' = 3"
proof -
  from assms(2) have i: "currentQuestionIndex s < length (questions s)"
    and q: "q = questions s ! currentQuestionIndex s"
    by (auto simp add: currentQuestion_def split: if_splits)
  from assms(3) have o: "outcomeOf (effects s) = None"
    by (cases "outcomeOf (effects s)") (simp_all add: terminal_def outcome_def)
  let ?s' = "endQuiz env s (emit (Toast ThreeMistakes) (emit (Toast Incorrect)
            (s\<lparr>selectedOption := Some a, isCorrect := Some False, mistakes := mistakes s + 1\<rparr>))) True"
  have st: "submitAnswer env s a = Inr ?s'"
    using assms(1,4,5) i q by (simp add: submitAnswer_step)
  moreover have "outcome ?s' = Some (FailedByMistakes, 0)"
    using o by (simp add: outcome_endQuiz effects_emit outcomeOf_append)
  moreover have "writes (effects ?s')
      = writes (effects s) @ [ProgressUpdate (user_id env) (levelNumber env) unlocked (Some 0)]"
    by (simp add: writes_endQuiz effects_emit writes_append intent_def)
  moreover have "mistakes ?s' = 3"
    using assms(4) by (simp add: endQuiz_def emit_def Let_def split: option.splits)
  ultimately show ?thesis by simp
qed


text \<open>
  In a run of clicks such a submission is the third incorrect one, and the
  level has at least three questions.
\<close>

lemma wrongCount_le: "wrongCount qs xs \<le> length xs"
  by (induction qs xs rule: list_induct2') simp_all

lemma third_mistake_run:
  assumes "run env (start lvl qs) xs = Inr s" "\<not> terminal s" "mistakes s = 2"
  shows "selectedOption s = None \<and> currentQuestion s = Some (qs ! length xs)
    \<and> wrongCount qs xs = 2 \<and> 3 \<le> length qs"
proof -
  have ne: "qs \<noteq> []"
  proof
    assume "qs = []"
    with assms(1) have "xs = []" using run_start_empty by simp
    with assms(1,3) show False by (auto simp add: start_def fetchQuizData_def initialState_def)
  qed
  from run_nonterminal [OF assms(1,2) ne] have sel: "selectedOption s = None"
    and i: "currentQuestionIndex s < length qs" and q: "questions s = qs" by simp_all
  from run_counts [OF assms(1) sel] have c: "currentQuestionIndex s = length xs"
    "mistakes s = wrongCount qs xs" by simp_all
  have "2 \<le> length xs" using c(2) assms(3) wrongCount_le [of qs xs] by simp
  then have "3 \<le> length qs" using i c(1) by simp
  then show ?thesis using sel i q c assms(3) by (simp add: currentQuestion_def)
qed

text \<open>
  On the page, in a session without stale results, the submission is a click
  and its timer: whenever no option is selected and two mistakes are counted,
  a click on an incorrect option ends the session as failed with score 0.
\<close>

lemma third_mistake_session:
  assumes "qs \<noteq> []" "orderlySession env supported lvl qs es"
    "selectedOption (ui (session env supported lvl qs es)) = None"
    "mistakes (ui (session env supported lvl qs es)) = 2"
    "a \<noteq> correct_answer (qs ! currentQuestionIndex (ui (session env supported lvl qs es)))"
  shows "outcome (ui (session env supported lvl qs (es @ [Click a, Timeout 0])))
     = Some (FailedByMistakes, 0)"
proof -
  let ?p = "session env supported lvl qs es"
  have i: "pageInv env ?p" using assms(1,2) by (rule session_pageInv)
  have t: "timers ?p = []" using i assms(3) by (rule pageInv_presenting)
  with i assms(3) have w: "writes (effects (ui ?p)) = []"
    and x: "currentQuestionIndex (ui ?p) < length (questions (ui ?p))"
    by (simp_all add: pageInv_idle sessionInv_def)
  have q: "questions (ui ?p) = qs" by (rule session_questions)
  have c: "currentQuestion (ui ?p) = Some (qs ! currentQuestionIndex (ui ?p))"
    using x q by (simp add: currentQuestion_def)
  have n: "\<not> terminal (ui ?p)"
    using w by (simp add: terminal_def outcome_def outcome_no_writes)
  from third_wrong_submission [OF assms(3) c n assms(4,5), of env]
  obtain s' where s: "submitAnswer env (ui ?p) a = Inr s'"
    and o: "outcome s' = Some (FailedByMistakes, 0)" by blast
  have "exec env ?p [Click a, Timeout 0] = ?p\<lparr>ui := s'\<rparr>" using s t by (rule submit_events)
  then have "session env supported lvl qs (es @ [Click a, Timeout 0]) = ?p\<lparr>ui := s'\<rparr>"
    by (simp add: session_def exec_append)
  then show ?thesis using o by simp
qed




subsection \<open>A wrong answer below the limit\<close>




subsection \<open>A wrong answer on the last question\<close>




subsection \<open>After the end\<close>

text \<open>
  Claim C5, as the page does it in a session without stale results. Once an
  orderly session has ended, a click on an option is ignored: the handler
  returns normally, schedules nothing and leaves the whole page as it is, the
  question index, the score, the mistakes, the outcome and the messages shown;
  no rejection is signalled. (For a session with a stale result see
  \<open>stale_result_click_processed\<close>.)
\<close>

theorem terminal_click_ignored:
  assumes "orderlySession env supported lvl qs es" "terminal (ui (session env supported lvl qs es))"
  shows "dispatch env (session env supported lvl qs es) (Click a) = session env supported lvl qs es
    \<and> optionClick (ui (session env supported lvl qs es)) (ui (session env supported lvl qs es)) a
        = Inr (ui (session env supported lvl qs es), None)
    \<and> submitAnswer env (ui (session env supported lvl qs es)) a
        = Inr (ui (session env supported lvl qs es))"
  using session_terminal [OF assms]
  by (auto simp add: clickOption_def submitAnswer_def optionClick_def setTimeout_def
      split: option.splits)

theorem terminal_click_ignored_witness:
  "orderlySession learner True restaurantBasics [waiterQuestion, menuQuestion]
     [StartListening, SpeechResult ''waiter'', Timeout 0, Click ''Bill'', Timeout 0]
   \<and> terminal finishedSession
   \<and> dispatch learner \<lparr>ui = finishedSession, timers = [], recogniser = None, recognition = True\<rparr>
        (Click ''Menu'')
       = \<lparr>ui = finishedSession, timers = [], recogniser = None, recognition = True\<rparr>
   \<and> optionClick finishedSession finishedSession ''Menu'' = Inr (finishedSession, None)
   \<and> submitAnswer learner finishedSession ''Menu'' = Inr finishedSession"
proof -
  let ?es = "[StartListening, SpeechResult ''waiter'', Timeout 0, Click ''Bill'', Timeout 0]"
  have t: "terminal (ui (session learner True restaurantBasics [waiterQuestion, menuQuestion] ?es))"
    by (simp add: sample_session(1) terminal_finished)
  from terminal_click_ignored [OF sample_session(2) t, of "''Menu''"] terminal_finished
  show ?thesis by (simp add: sample_session)
qed

text \<open>
  In the finished sample session the click on Menu returns the same state
  without an error, and \<^verbatim>\<open>checkAnswer\<close>, which has no check for the end of the
  session, counts the answer: the score goes from 1 to 2.
\<close>

theorem terminal_submit_counterexample:
  "ui (session learner True restaurantBasics [waiterQuestion, menuQuestion]
         [Click ''Waiter'', Timeout 0, Click ''Bill'', Timeout 0]) = finishedSession
   \<and> terminal finishedSession
   \<and> submitAnswer learner finishedSession ''Menu'' = Inr finishedSession
   \<and> score finishedSession = 1
   \<and> map_sum id (score \<circ> fst) (checkAnswer finishedSession finishedSession ''Menu'') = Inr 2"
  by (simp add: sample_clicks terminal_finished)
     (simp add: session_defs sample_defs finishedSession_def)

subsection \<open>The progress update\<close>

text \<open>
  Claim C4, with the reply of the backend taken into account, in a session
  without stale results. An orderly session that has ended has sent one progress
  update: the level's own row with the status \<^verbatim>\<open>completed\<close> for a completed
  session and \<^verbatim>\<open>unlocked\<close> for a failed one and the score of the outcome as
  \<^verbatim>\<open>high_score\<close>, followed by the unlocking of the next level number exactly
  when the session was completed and the backend accepted the first write.
  Further events add no write. The session has failed exactly when it counts
  three mistakes, and a completed session stands on the last question. (For a
  session with a stale result see \<open>stale_result_double_write\<close>.)
\<close>

theorem one_progress_intent:
  assumes "orderlySession env supported lvl qs es" "terminal (ui (session env supported lvl qs es))"
  shows "\<exists>k sc. outcome (ui (session env supported lvl qs es)) = Some (k, sc)
    \<and> writes (effects (ui (session env supported lvl qs es))) = intent env k sc
    \<and> (ProgressUpdate (user_id env) (levelNumber env + 1) unlocked None
          \<in> set (writes (effects (ui (session env supported lvl qs es)))))
        = (k = Completed \<and> progressError env = None)
    \<and> (k = FailedByMistakes) = (mistakes (ui (session env supported lvl qs es)) = 3)
    \<and> (k = Completed \<longrightarrow> currentQuestionIndex (ui (session env supported lvl qs es)) + 1 = length qs)"
proof -
  let ?s = "ui (session env supported lvl qs es)"
  from session_terminal [OF assms] obtain b where i: "sessionInv env ?s" and b: "selectedOption ?s = Some b"
    by auto
  have q: "questions ?s = qs" by (rule session_questions)
  from i b obtain k sc where o: "outcome ?s = Some (k, sc)" and w: "writes (effects ?s) = intent env k sc"
    and f: "k = FailedByMistakes \<longrightarrow> mistakes ?s = 3"
    and c: "k = Completed \<longrightarrow> mistakes ?s < 3 \<and> currentQuestionIndex ?s + 1 = length (questions ?s)"
    by (auto simp add: sessionInv_def split: option.splits)
  have "(ProgressUpdate (user_id env) (levelNumber env + 1) unlocked None \<in> set (intent env k sc))
        = (k = Completed \<and> progressError env = None)"
    by (simp add: intent_def)
  moreover have "(k = FailedByMistakes) = (mistakes ?s = 3)"
    using f c by (cases k) auto
  ultimately show ?thesis using o w c q by auto
qed

theorem one_progress_intent_witness:
  "orderlySession learner True restaurantBasics [waiterQuestion, menuQuestion]
     [StartListening, SpeechResult ''waiter'', Timeout 0, Click ''Bill'', Timeout 0]
   \<and> terminal finishedSession
   \<and> outcome finishedSession = Some (Completed, 1)
   \<and> writes (effects finishedSession) = [ProgressUpdate ''learner'' 1 completed (Some 1),
                                         ProgressUpdate ''learner'' 2 unlocked None]"
proof -
  let ?es = "[StartListening, SpeechResult ''waiter'', Timeout 0, Click ''Bill'', Timeout 0]"
  have t: "terminal (ui (session learner True restaurantBasics [waiterQuestion, menuQuestion] ?es))"
    by (simp add: sample_session(1) terminal_finished)
  have o: "outcome finishedSession = Some (Completed, 1)"
    by (simp add: outcome_def finishedSession_def)
  from one_progress_intent [OF sample_session(2) t]
  obtain k sc where "outcome finishedSession = Some (k, sc)"
    and w: "writes (effects finishedSession) = intent learner k sc"
    by (auto simp add: sample_session(1))
  with o have "k = Completed" "sc = 1" by simp_all
  with w have "writes (effects finishedSession) = intent learner Completed 1" by simp
  then have "writes (effects finishedSession)
      = [ProgressUpdate ''learner'' 1 completed (Some 1), ProgressUpdate ''learner'' 2 unlocked None]"
    by (simp add: intent_def learner_def)
  with o terminal_finished sample_session(2) show ?thesis by simp
qed

text \<open>
  When the backend rejects the first write, a completed session sends no
  unlocking of the next level.
\<close>

theorem one_progress_intent_counterexample:
  "outcome (ui (session rejectedLearner True restaurantBasics [waiterQuestion, menuQuestion]
       [Click ''Waiter'', Timeout 0, Click ''Bill'', Timeout 0])) = Some (Completed, 1)
   \<and> writes (effects (ui (session rejectedLearner True restaurantBasics [waiterQuestion, menuQuestion]
       [Click ''Waiter'', Timeout 0, Click ''Bill'', Timeout 0])))
     = [ProgressUpdate ''learner'' 1 completed (Some 1)]"
  by (simp add: event_defs session_defs sample_defs)

subsection \<open>All answers correct\<close>

text \<open>
  Claim C2 at the three sample questions answered Waiter, Menu and Check. The
  score of the page reaches 3, one for each correct answer, and the session ends
  as completed, but the score of the outcome, written as \<^verbatim>\<open>high_score\<close>, is 2:
  the callback that ends the quiz belongs to the render before the last answer
  and reads the score of that render. By \<open>all_correct_run\<close> the outcome of \<open>N\<close>
  correct answers is \<open>N - 1\<close> for every level.
\<close>

theorem all_correct_final_score:
  "map_sum id outcome
     (run learner (start restaurantBasics [waiterQuestion, menuQuestion, checkQuestion])
        [''Waiter'', ''Menu'', ''Check'']) = Inr (Some (Completed, 2))
   \<and> map_sum id score
     (run learner (start restaurantBasics [waiterQuestion, menuQuestion, checkQuestion])
        [''Waiter'', ''Menu'', ''Check'']) = Inr 3
   \<and> map_sum id (writes \<circ> effects)
     (run learner (start restaurantBasics [waiterQuestion, menuQuestion, checkQuestion])
        [''Waiter'', ''Menu'', ''Check''])
     = Inr [ProgressUpdate ''learner'' 1 completed (Some 2), ProgressUpdate ''learner'' 2 unlocked None]"
  by (simp add: session_defs sample_defs)

section \<open>The normaliser\<close>

subsection \<open>The similarity primitive\<close>

text \<open>
  The count of \<open>intersect\<close> is the size of the intersection of the two
  multisets of bigrams. So the similarity is the same in both directions and
  lies between 0 and 1, as the spec describes it.
\<close>

lemma countBigrams_count:
  "countBigrams gs m = (\<lambda>g. m g + count (mset gs) g)"
  by (induction gs arbitrary: m) auto

lemma intersect_size:
  "intersect gs (count M) n = n + size (mset gs \<inter># M)"
proof (induction gs arbitrary: M n)
  case Nil
  then show ?case by simp
next
  case (Cons g gs)
  show ?case
  proof (cases "g \<in># M")
    case True
    have c: "(count M)(g := count M g - 1) = count (M - {#g#})" by auto
    have "intersect (g # gs) (count M) n = intersect gs ((count M)(g := count M g - 1)) (n + 1)"
      using True by (simp add: Let_def)
    also have "\<dots> = intersect gs (count (M - {#g#})) (n + 1)" by (simp only: c)
    also have "\<dots> = n + 1 + size (mset gs \<inter># (M - {#g#}))" by (rule Cons.IH)
    also have "\<dots> = n + size (add_mset g (mset gs \<inter># (M - {#g#})))" by simp
    also have "add_mset g (mset gs \<inter># (M - {#g#})) = mset (g # gs) \<inter># M"
      using True by (simp add: inter_add_left2)
    finally show ?thesis .
  next
    case False
    then have "mset (g # gs) \<inter># M = mset gs \<inter># M" by (simp add: inter_add_left1)
    then show ?thesis using False Cons.IH [of M n] by (simp add: Let_def not_in_iff)
  qed
qed

lemma length_bigrams: "length (bigrams s) = length s - 1"
  by (induction s rule: bigrams.induct) simp_all

lemma overlap_size:
  "intersect (bigrams second) (countBigrams (bigrams first) (\<lambda>b. 0)) 0
     = size (mset (bigrams second) \<inter># mset (bigrams first))"
proof -
  have "countBigrams (bigrams first) (\<lambda>b. 0) = count (mset (bigrams first))"
    by (simp add: countBigrams_count)
  then show ?thesis by (simp add: intersect_size)
qed

lemma compareTwoStrings_sym: "compareTwoStrings a b = compareTwoStrings b a"
proof -
  let ?a = "filter (\<lambda>c. \<not> isWhiteSpace c) a"
  let ?b = "filter (\<lambda>c. \<not> isWhiteSpace c) b"
  have i: "size (mset (bigrams ?b) \<inter># mset (bigrams ?a)) = size (mset (bigrams ?a) \<inter># mset (bigrams ?b))"
    by (simp only: multiset_inter_commute [of "mset (bigrams ?b)"])
  have l: "length ?a + length ?b = length ?b + length ?a" by simp
  have e: "(?a = ?b) = (?b = ?a)" by auto
  show ?thesis
    unfolding compareTwoStrings_def Let_def overlap_size i l
    using e by (simp add: disj_commute)
qed

lemma compareTwoStrings_range: "0 \<le> compareTwoStrings a b \<and> compareTwoStrings a b \<le> 1"
proof -
  let ?a = "filter (\<lambda>c. \<not> isWhiteSpace c) a"
  let ?b = "filter (\<lambda>c. \<not> isWhiteSpace c) b"
  let ?i = "size (mset (bigrams ?b) \<inter># mset (bigrams ?a))"
  have "?i \<le> size (mset (bigrams ?b))" by (rule size_mset_mono) simp
  then have b: "?i \<le> length ?b - 1" by (simp add: length_bigrams)
  have "?i \<le> size (mset (bigrams ?a))" by (rule size_mset_mono) simp
  then have a: "?i \<le> length ?a - 1" by (simp add: length_bigrams)
  have le: "2 \<le> length ?a \<Longrightarrow> 2 \<le> length ?b \<Longrightarrow>
     2 * rat_of_nat ?i / rat_of_nat (length ?a + length ?b - 2) \<le> 1"
  proof -
    assume h: "2 \<le> length ?a" "2 \<le> length ?b"
    then have "2 * ?i \<le> length ?a + length ?b - 2" using a b by linarith
    then have "rat_of_nat (2 * ?i) \<le> rat_of_nat (length ?a + length ?b - 2)"
      by (simp only: of_nat_le_iff)
    moreover have "0 < rat_of_nat (length ?a + length ?b - 2)" using h by simp
    ultimately show ?thesis by (simp add: divide_le_eq)
  qed
  show ?thesis
    unfolding compareTwoStrings_def Let_def overlap_size
    using le by (auto simp add: not_less)
qed

subsection \<open>The loop over the options\<close>

text \<open>
  The loop keeps its candidate when no option scores more, and otherwise ends
  with the first option of maximal score, which scores more than the candidate
  it started with.
\<close>

lemma bestOf_keep:
  "\<forall>option\<in>set opts. compareTwoStrings ns (trim (toLowerCase option)) \<le> snd b \<Longrightarrow>
   bestOf ns opts b = b"
  by (induction opts) (simp_all add: Let_def)

lemma bestOf_max:
  "\<exists>option\<in>set opts. snd b < compareTwoStrings ns (trim (toLowerCase option)) \<Longrightarrow>
   \<exists>i<length opts.
     bestOf ns opts b = (opts ! i, compareTwoStrings ns (trim (toLowerCase (opts ! i))))
     \<and> snd b < compareTwoStrings ns (trim (toLowerCase (opts ! i)))
     \<and> (\<forall>j<length opts. compareTwoStrings ns (trim (toLowerCase (opts ! j)))
            \<le> compareTwoStrings ns (trim (toLowerCase (opts ! i))))
     \<and> (\<forall>j<i. compareTwoStrings ns (trim (toLowerCase (opts ! j)))
            < compareTwoStrings ns (trim (toLowerCase (opts ! i))))"
proof (induction opts arbitrary: b)
  case Nil
  then show ?case by simp
next
  case (Cons x opts)
  let ?sim = "\<lambda>option. compareTwoStrings ns (trim (toLowerCase option))"
  let ?b' = "if ?sim x > snd b then (x, ?sim x) else b"
  have step: "bestOf ns (x # opts) b = bestOf ns opts ?b'" by (simp add: Let_def)
  have b': "snd b \<le> snd ?b'" "?sim x \<le> snd ?b'" by auto
  show ?case
  proof (cases "\<exists>option\<in>set opts. snd ?b' < ?sim option")
    case True
    from Cons.IH [OF True] obtain i where i: "i < length opts"
      and r: "bestOf ns opts ?b' = (opts ! i, ?sim (opts ! i))"
      and g: "snd ?b' < ?sim (opts ! i)"
      and m: "\<forall>j<length opts. ?sim (opts ! j) \<le> ?sim (opts ! i)"
      and f: "\<forall>j<i. ?sim (opts ! j) < ?sim (opts ! i)"
      by blast
    have x: "?sim x < ?sim (opts ! i)" using b'(2) g by (rule le_less_trans)
    have "Suc i < length (x # opts)" using i by simp
    moreover have "bestOf ns (x # opts) b = ((x # opts) ! Suc i, ?sim ((x # opts) ! Suc i))"
      using step r by simp
    moreover have "snd b < ?sim ((x # opts) ! Suc i)" using b'(1) g by auto
    moreover have "\<forall>j<length (x # opts). ?sim ((x # opts) ! j) \<le> ?sim ((x # opts) ! Suc i)"
    proof (intro allI impI)
      fix j assume "j < length (x # opts)"
      then show "?sim ((x # opts) ! j) \<le> ?sim ((x # opts) ! Suc i)"
        using m x by (cases j) auto
    qed
    moreover have "\<forall>j<Suc i. ?sim ((x # opts) ! j) < ?sim ((x # opts) ! Suc i)"
    proof (intro allI impI)
      fix j assume "j < Suc i"
      then show "?sim ((x # opts) ! j) < ?sim ((x # opts) ! Suc i)"
        using f x by (cases j) auto
    qed
    ultimately show ?thesis by blast
  next
    case False
    then have le: "\<forall>option\<in>set opts. ?sim option \<le> snd ?b'" by (simp add: not_less)
    then have keep: "bestOf ns opts ?b' = ?b'" by (rule bestOf_keep)
    have gx: "snd b < ?sim x"
    proof (rule ccontr)
      assume n: "\<not> snd b < ?sim x"
      then have "?b' = b" by simp
      with le have "\<forall>option\<in>set opts. ?sim option \<le> snd b" by simp
      with n Cons.prems show False by (auto simp add: not_less)
    qed
    then have bx: "?b' = (x, ?sim x)" by simp
    have "0 < length (x # opts)" by simp
    moreover have "bestOf ns (x # opts) b = ((x # opts) ! 0, ?sim ((x # opts) ! 0))"
      using step keep bx by simp
    moreover have "snd b < ?sim ((x # opts) ! 0)" using gx by simp
    moreover have "\<forall>j<length (x # opts). ?sim ((x # opts) ! j) \<le> ?sim ((x # opts) ! 0)"
    proof (intro allI impI)
      fix j assume "j < length (x # opts)"
      then show "?sim ((x # opts) ! j) \<le> ?sim ((x # opts) ! 0)"
        using le bx by (cases j) auto
    qed
    ultimately show ?thesis by blast
  qed
qed

lemmas string_defs = similarities_def compareTwoStrings_def trim_def toLowerCase_def
  isWhiteSpace_def isUpperCase_def lowerChar_def

lemma sample_similarities:
  "similarities '' MENU '' [''Bill'', ''Menu'', ''menu'', ''Order''] = [0, 1, 1, 0]"
  "similarities ''may new'' [''Menu'', ''Bill'', ''Receipt'', ''Order''] = [0, 0, 0, 0]"
  by (simp_all add: string_defs)

text \<open>
  Claim C3. For every utterance and every non-empty list of options,
  \<^verbatim>\<open>findBestMatch\<close> compares the lowercased and trimmed utterance with each
  lowercased and trimmed option. If the largest similarity is at least 0.7 it
  returns the first option that attains it, as it was given, with that
  similarity; if the largest similarity is below 0.7 it returns no match.
\<close>

theorem findBestMatch_max:
  assumes "opts \<noteq> []"
  shows "(7 / 10 \<le> Max (set (similarities spokenText opts)) \<longrightarrow>
           (\<exists>i<length opts.
              findBestMatch spokenText opts = Some (opts ! i, Max (set (similarities spokenText opts)))
              \<and> similarities spokenText opts ! i = Max (set (similarities spokenText opts))
              \<and> (\<forall>j<i. similarities spokenText opts ! j < Max (set (similarities spokenText opts)))))
       \<and> (Max (set (similarities spokenText opts)) < 7 / 10 \<longrightarrow> findBestMatch spokenText opts = None)"
proof -
  let ?ns = "trim (toLowerCase spokenText)"
  let ?sim = "\<lambda>option. compareTwoStrings ?ns (trim (toLowerCase option))"
  let ?sims = "similarities spokenText opts"
  have sims: "?sims = map ?sim opts" by (simp add: similarities_def)
  have fin: "finite (set ?sims)" "set ?sims \<noteq> {}" using assms by (simp_all add: sims)
  show ?thesis
  proof (cases "\<exists>option\<in>set opts. 0 < ?sim option")
    case True
    then have "\<exists>option\<in>set opts. snd ('''', 0::rat) < ?sim option" by simp
    from bestOf_max [OF this] obtain i where i: "i < length opts"
      and r: "bestOf ?ns opts ('''', 0) = (opts ! i, ?sim (opts ! i))"
      and m: "\<forall>j<length opts. ?sim (opts ! j) \<le> ?sim (opts ! i)"
      and f: "\<forall>j<i. ?sim (opts ! j) < ?sim (opts ! i)"
      by blast
    have "Max (set ?sims) = ?sim (opts ! i)"
    proof (rule Max_eqI)
      show "finite (set ?sims)" by (rule fin)
      show "?sim (opts ! i) \<in> set ?sims" using i by (simp add: sims)
      fix y assume "y \<in> set ?sims"
      then obtain j where "j < length opts" "y = ?sim (opts ! j)"
        by (auto simp add: sims in_set_conv_nth)
      with m show "y \<le> ?sim (opts ! i)" by simp
    qed
    then have mx: "?sim (opts ! i) = Max (set ?sims)" by simp
    have nth: "\<And>j. j < length opts \<Longrightarrow> ?sims ! j = ?sim (opts ! j)" by (simp add: sims)
    have fb: "findBestMatch spokenText opts =
      (if 7 / 10 \<le> Max (set ?sims) then Some (opts ! i, Max (set ?sims)) else None)"
      using r mx by (simp add: findBestMatch_def Let_def)
    have fi: "\<forall>j<i. ?sims ! j < Max (set ?sims)"
      using f i mx nth by (metis (no_types, lifting) less_trans)
    show ?thesis using fb i fi nth [OF i] mx by auto
  next
    case False
    then have le: "\<forall>option\<in>set opts. ?sim option \<le> snd ('''', 0::rat)" by (simp add: not_less)
    then have "bestOf ?ns opts ('''', 0) = ('''', 0)" by (rule bestOf_keep)
    then have none: "findBestMatch spokenText opts = None" by (simp add: findBestMatch_def Let_def)
    have "Max (set ?sims) \<le> 0" using fin le by (simp add: sims)
    then have "\<not> 7 / 10 \<le> Max (set ?sims)" by simp
    with none show ?thesis by simp
  qed
qed

theorem findBestMatch_max_witness:
  "findBestMatch '' MENU '' [''Bill'', ''Menu'', ''menu'', ''Order''] = Some (''Menu'', 1)
   \<and> findBestMatch ''may new'' [''Menu'', ''Bill'', ''Receipt'', ''Order''] = None"
proof -
  let ?opts = "[''Bill'', ''Menu'', ''menu'', ''Order'']"
  have ne: "?opts \<noteq> []" by simp
  have mx: "Max (set (similarities '' MENU '' ?opts)) = 1" by (simp add: sample_similarities)
  from findBestMatch_max [OF ne, of "'' MENU ''"] mx
  obtain i where i: "i < length ?opts"
    and r: "findBestMatch '' MENU '' ?opts = Some (?opts ! i, 1)"
    and e: "similarities '' MENU '' ?opts ! i = 1"
    and f: "\<forall>j<i. similarities '' MENU '' ?opts ! j < 1"
    by auto
  from i consider "i = 0" | "i = 1" | "i = 2" | "i = 3" by fastforce
  then have "i = 1"
  proof cases
    case 1
    with e show ?thesis by (simp add: sample_similarities)
  next
    case 2
    then show ?thesis .
  next
    case 3
    with f have "similarities '' MENU '' ?opts ! 1 < 1" by simp
    then show ?thesis by (simp add: sample_similarities)
  next
    case 4
    with e show ?thesis by (simp add: sample_similarities)
  qed
  with r have a: "findBestMatch '' MENU '' ?opts = Some (''Menu'', 1)" by simp
  let ?opts' = "[''Menu'', ''Bill'', ''Receipt'', ''Order'']"
  have ne': "?opts' \<noteq> []" by simp
  have mx': "Max (set (similarities ''may new'' ?opts')) = 0" by (simp add: sample_similarities)
  from findBestMatch_max [OF ne', of "''may new''"] mx'
  have "findBestMatch ''may new'' ?opts' = None" by simp
  with a show ?thesis by simp
qed

subsection \<open>The empty utterance\<close>

text \<open>
  Lowercasing keeps whitespace whitespace and letters letters, and trimming
  removes whitespace only, so an option has no character left after normalising
  and removing whitespace exactly when it is blank. The empty utterance scores 1
  against a blank option and 0 against any other.
\<close>

lemma upper_not_space: "isUpperCase c \<Longrightarrow> \<not> isWhiteSpace c"
  by (auto simp add: isUpperCase_def isWhiteSpace_def Let_def)

lemma lower_not_space: "isUpperCase c \<Longrightarrow> \<not> isWhiteSpace (lowerChar c)"
proof (cases c)
  case (Char b0 b1 b2 b3 b4 b5 b6 b7)
  assume u: "isUpperCase c"
  show ?thesis
    using u Char
    by (cases b7; cases b6; cases b5; cases b4; cases b3; cases b2; cases b1; cases b0;
        simp add: lowerChar_def isWhiteSpace_def isUpperCase_def)
qed

lemma isWhiteSpace_lowerChar: "isWhiteSpace (lowerChar c) = isWhiteSpace c"
  using upper_not_space [of c] lower_not_space [of c] by (cases "isUpperCase c") (simp_all add: lowerChar_def)

lemma filter_dropWhile: "filter (\<lambda>c. \<not> P c) (dropWhile P xs) = filter (\<lambda>c. \<not> P c) xs"
  by (induction xs) simp_all

lemma filter_trim: "filter (\<lambda>c. \<not> isWhiteSpace c) (trim s) = filter (\<lambda>c. \<not> isWhiteSpace c) s"
proof -
  have "filter (\<lambda>c. \<not> isWhiteSpace c) (trim s)
      = rev (filter (\<lambda>c. \<not> isWhiteSpace c) (dropWhile isWhiteSpace (rev (dropWhile isWhiteSpace s))))"
    by (simp add: trim_def rev_filter)
  also have "\<dots> = rev (filter (\<lambda>c. \<not> isWhiteSpace c) (rev (dropWhile isWhiteSpace s)))"
    by (simp only: filter_dropWhile)
  also have "\<dots> = filter (\<lambda>c. \<not> isWhiteSpace c) (dropWhile isWhiteSpace s)"
    by (simp add: rev_filter)
  also have "\<dots> = filter (\<lambda>c. \<not> isWhiteSpace c) s"
    by (simp only: filter_dropWhile)
  finally show ?thesis .
qed

lemma no_letters_blank:
  "(filter (\<lambda>c. \<not> isWhiteSpace c) (trim (toLowerCase option)) = []) = blank option"
  by (simp add: filter_trim toLowerCase_def blank_def filter_empty_conv isWhiteSpace_lowerChar
      list_all_iff)

lemma compare_empty:
  "compareTwoStrings [] (trim (toLowerCase option)) = (if blank option then 1 else 0)"
  using no_letters_blank [of option] by (auto simp add: compareTwoStrings_def Let_def)

lemma bestOf_empty_found: "bestOf [] opts (t, 1) = (t, 1)"
  by (rule bestOf_keep) (simp add: compare_empty)

lemma bestOf_empty:
  "bestOf [] opts (t, 0) = (case filter blank opts of [] \<Rightarrow> (t, 0) | b # bs \<Rightarrow> (b, 1))"
  by (induction opts) (simp_all add: compare_empty bestOf_empty_found Let_def)

lemma findBestMatch_empty:
  "findBestMatch [] opts = (case filter blank opts of [] \<Rightarrow> None | b # bs \<Rightarrow> Some (b, 1))"
  by (simp add: findBestMatch_def Let_def trim_def toLowerCase_def bestOf_empty split: list.splits)

text \<open>
  Claim C9, for options that are not blank. \<^verbatim>\<open>findBestMatch\<close> applied to the
  empty utterance returns no match exactly when no option is blank. (A blank
  option is identical to the empty utterance after normalising and scores 1; the
  first blank option is then returned.)
\<close>

theorem empty_utterance:
  "(findBestMatch [] opts = None) = (\<forall>option\<in>set opts. \<not> blank option)"
proof (cases "filter blank opts")
  case Nil
  then show ?thesis by (simp add: findBestMatch_empty filter_empty_conv)
next
  case (Cons b bs)
  then have "b \<in> set (filter blank opts)" by simp
  then have "b \<in> set opts" "blank b" by simp_all
  then show ?thesis using Cons by (auto simp add: findBestMatch_empty)
qed

theorem empty_utterance_witness:
  "\<not> blank ''Menu'' \<and> \<not> blank ''Bill'' \<and> \<not> blank ''Receipt'' \<and> \<not> blank ''Order''
   \<and> findBestMatch [] [''Menu'', ''Bill'', ''Receipt'', ''Order''] = None"
proof -
  have b: "\<not> blank ''Menu''" "\<not> blank ''Bill''" "\<not> blank ''Receipt''" "\<not> blank ''Order''"
    by (simp_all add: blank_def isWhiteSpace_def)
  then show ?thesis using empty_utterance [of "[''Menu'', ''Bill'', ''Receipt'', ''Order'']"] by simp
qed

text \<open>
  The level editor creates a question with four empty options; with two of them
  left empty the empty utterance selects the empty option.
\<close>

theorem empty_utterance_counterexample:
  "findBestMatch [] [''Menu'', ''Bill'', [], []] = Some ([], 1)"
  by (simp add: findBestMatch_def compareTwoStrings_def trim_def toLowerCase_def
      isWhiteSpace_def isUpperCase_def lowerChar_def)

end
